theory Spec2Isabelle
  imports Complex_Main "HOL-Library.Char_ord" "HOL-Library.List_Lexorder"
begin

section \<open>Data model\<close>

text \<open>
  The constraint messages (\<open>moveit_msgs::Constraints\<close> and its three element types) are
  records holding the field that \<open>selectDefaultSampler\<close> reads (\<open>joint_name\<close>,
  \<open>link_name\<close>) and a natural number standing for the rest of the message (tolerances,
  regions, headers), which only the constraint classes interpret.
\<close>

record JointConstraintMsg =
  joint_name :: string
  jc_body :: nat

record PositionConstraintMsg =
  p_link_name :: string
  pc_body :: nat

record OrientationConstraintMsg =
  o_link_name :: string
  oc_body :: nat

record Constraints =
  joint_constraints :: "JointConstraintMsg list"
  position_constraints :: "PositionConstraintMsg list"
  orientation_constraints :: "OrientationConstraintMsg list"

text \<open>
  A configured \<open>kinematic_constraints::JointConstraint\<close>: the message it was configured
  from and the variable name \<open>getJointVariableName()\<close> answers.
\<close>

datatype JointConstraint =
  JointConstraint (jc_msg: JointConstraintMsg) (getJointVariableName: string)

text \<open>
  \<open>IKSamplingPose\<close> is built from a configured position constraint, a configured
  orientation constraint, or both (its three constructors in the source).
\<close>

datatype IKSamplingPose =
  IKSamplingPose (position_constraint: "PositionConstraintMsg option")
                 (orientation_constraint: "OrientationConstraintMsg option")

datatype IKConstraintSampler =
  IKConstraintSampler (iks_group: string) (sampling_pose: IKSamplingPose)

text \<open>
  A \<open>ConstraintSamplerPtr\<close> that is not null points to one of the three sampler classes.
  \<open>UnionSampler\<close> holds the group name and the vector given to the constructor of
  \<open>UnionConstraintSampler\<close>.
\<close>

datatype Sampler =
  JointSampler string "JointConstraint list"
| IKSampler IKConstraintSampler
| UnionSampler string "Sampler list"

text \<open>
  Group objects are referred to by pointer in the source; a pointer is an address. The
  whole-group allocator is an optional function object, the subgroup allocators are a
  \<open>std::map\<close> from group pointers to function objects: the list of its entries in iteration
  order.
\<close>

type_synonym addr = nat
type_synonym SolverAllocatorFn = nat

record JointModelGroup =
  getName :: string
  getVariableNames :: "string list"
  hasLinkModel :: "string \<Rightarrow> bool"
  getSolverAllocators :: "SolverAllocatorFn option \<times> (addr \<times> SolverAllocatorFn) list"

text \<open>
  The planning scene with its robot model and transforms. The classes that
  \<open>selectDefaultSampler\<close> calls and that are defined elsewhere are fields of the scene:
  \<^item> \<open>getJointModelGroup\<close>: the group pointer for a name, or null;
  \<^item> \<open>group_at\<close>: the group object at an address;
  \<^item> \<open>JointConstraint_configure\<close>: \<open>JointConstraint::configure\<close>, answering the variable
    name of the configured constraint, or \<open>None\<close> when it returns false;
  \<^item> \<open>PositionConstraint_configure\<close>, \<open>OrientationConstraint_configure\<close>: whether
    \<open>configure\<close> succeeds on the message;
  \<^item> \<open>JointConstraintSampler_configure\<close>, \<open>IKConstraintSampler_configure\<close>: whether the
    sampler of the named group configures from the constraints or the pose;
  \<^item> \<open>getSamplingVolume\<close>: the volume an IK sampler reports, a \<open>double\<close> that is
    compared with \<open><\<close> only; it is read here as a real number (a volume that is a
    number, not a NaN).
\<close>

record PlanningScene =
  getJointModelGroup :: "string \<Rightarrow> addr option"
  group_at :: "addr \<Rightarrow> JointModelGroup"
  JointConstraint_configure :: "JointConstraintMsg \<Rightarrow> string option"
  PositionConstraint_configure :: "PositionConstraintMsg \<Rightarrow> bool"
  OrientationConstraint_configure :: "OrientationConstraintMsg \<Rightarrow> bool"
  JointConstraintSampler_configure :: "string \<Rightarrow> JointConstraint list \<Rightarrow> bool"
  IKConstraintSampler_configure :: "string \<Rightarrow> IKSamplingPose \<Rightarrow> bool"
  getSamplingVolume :: "IKConstraintSampler \<Rightarrow> real"

section \<open>The ordered map of the standard library\<close>

text \<open>
  A \<open>std::map\<close> is the list of its entries in iteration order, which is ascending key
  order. \<open>map_find\<close> is \<open>find\<close> (\<open>None\<close> for \<open>end()\<close>), \<open>map_assign k v\<close> is
  \<open>m[k] = v\<close>: it replaces the value of a key that is present and inserts a new key at
  its place in the order.
\<close>

definition map_find :: "'k \<Rightarrow> ('k \<times> 'v) list \<Rightarrow> 'v option" where
  "map_find k m = map_of m k"

fun map_assign :: "'k::linorder \<Rightarrow> 'v \<Rightarrow> ('k \<times> 'v) list \<Rightarrow> ('k \<times> 'v) list" where
  "map_assign k v [] = [(k, v)]"
| "map_assign k v ((k', v') # m) =
     (if k < k' then (k, v) # (k', v') # m
      else if k = k' then (k, v) # m
      else (k', v') # map_assign k v m)"

section \<open>KinematicTrajectory::swap\<close>

text \<open>
  The four members of a trajectory: the shared model handle, the group pointer (null or an
  address), the waypoints (state handles) and the durations.
\<close>

record KinematicTrajectory =
  kmodel :: nat
  group_ptr :: "addr option"
  waypoints :: "nat list"
  duration_from_previous :: "real list"

text \<open>\<open>a.swap(b)\<close> and \<open>std::swap(a, b)\<close>: the new values of \<open>a\<close> and of \<open>b\<close>.\<close>

definition std_swap :: "'a \<Rightarrow> 'a \<Rightarrow> 'a \<times> 'a" where
  "std_swap a b = (b, a)"

text \<open>
  \<open>swap(KinematicTrajectory &other)\<close> on two distinct objects, statement by statement; the
  result is the pair (this, other). The fourth statement names the duration list of
  \<open>this\<close> as both operands, so both new values are stored in \<open>this\<close>, the first
  operand's and then the second's.
\<close>

definition swap :: "KinematicTrajectory \<Rightarrow> KinematicTrajectory \<Rightarrow>
    KinematicTrajectory \<times> KinematicTrajectory" where
  "swap this other =
     (let (k, k') = std_swap (kmodel this) (kmodel other);
          (g, g') = std_swap (group_ptr this) (group_ptr other);
          (w, w') = std_swap (waypoints this) (waypoints other);
          (d, d') = std_swap (duration_from_previous this) (duration_from_previous this)
      in (this\<lparr>kmodel := k, group_ptr := g, waypoints := w,
                duration_from_previous := d, duration_from_previous := d'\<rparr>,
          other\<lparr>kmodel := k', group_ptr := g', waypoints := w'\<rparr>))"

section \<open>selectDefaultSampler\<close>

subsection \<open>Joint constraints\<close>

text \<open>The coverage map: every variable of the group is assigned \<open>false\<close>.\<close>

definition init_joint_coverage :: "string list \<Rightarrow> (string \<times> bool) list" where
  "init_joint_coverage names = fold (\<lambda>v m. map_assign v False m) names []"

text \<open>
  The loop over \<open>constr.joint_constraints\<close>: a constraint that configures and whose
  variable is a key of the coverage map marks the key and is pushed on \<open>jc\<close>.
\<close>

fun configure_joint_constraints :: "PlanningScene \<Rightarrow> JointConstraintMsg list \<Rightarrow>
    (string \<times> bool) list \<times> JointConstraint list \<Rightarrow>
    (string \<times> bool) list \<times> JointConstraint list" where
  "configure_joint_constraints scene [] (joint_coverage, jc) = (joint_coverage, jc)"
| "configure_joint_constraints scene (m # ms) (joint_coverage, jc) =
     (case JointConstraint_configure scene m of
        Some v \<Rightarrow>
          if map_find v joint_coverage \<noteq> None
          then configure_joint_constraints scene ms
                 (map_assign v True joint_coverage, jc @ [JointConstraint m v])
          else configure_joint_constraints scene ms (joint_coverage, jc)
      | None \<Rightarrow> configure_joint_constraints scene ms (joint_coverage, jc))"

definition full_coverage :: "(string \<times> bool) list \<Rightarrow> bool" where
  "full_coverage joint_coverage = list_all snd joint_coverage"

text \<open>
  The block on joint constraints: \<open>Inl\<close> is the sampler returned at once, \<open>Inr\<close> the
  value of \<open>joint_sampler\<close> (null or the temporary sampler) with which the function goes on.
\<close>

definition joint_pass :: "PlanningScene \<Rightarrow> JointModelGroup \<Rightarrow> Constraints \<Rightarrow>
    Sampler + Sampler option" where
  "joint_pass scene jmg constr =
     (if joint_constraints constr \<noteq> [] then
        (let (joint_coverage, jc) =
               configure_joint_constraints scene (joint_constraints constr)
                 (init_joint_coverage (getVariableNames jmg), [])
         in if full_coverage joint_coverage then
              (if JointConstraintSampler_configure scene (getName jmg) jc
               then Inl (JointSampler (getName jmg) jc)
               else Inr None)
            else if jc \<noteq> [] then
              (if JointConstraintSampler_configure scene (getName jmg) jc
               then Inr (Some (JointSampler (getName jmg) jc))
               else Inr None)
            else Inr None)
      else Inr None)"

subsection \<open>IK samplers for the whole group\<close>

text \<open>
  The three loops end with the same statements: the new sampler is stored under its link
  unless the sampler stored there has a smaller volume.
\<close>

definition record_candidate :: "PlanningScene \<Rightarrow> string \<Rightarrow> IKConstraintSampler \<Rightarrow>
    (string \<times> IKConstraintSampler) list \<Rightarrow> (string \<times> IKConstraintSampler) list" where
  "record_candidate scene link iks usedL =
     (let use = (case map_find link usedL of
                   Some stored \<Rightarrow>
                     if getSamplingVolume scene stored < getSamplingVolume scene iks
                     then False else True
                 | None \<Rightarrow> True)
      in if use then map_assign link iks usedL else usedL)"

fun full_pose_inner :: "PlanningScene \<Rightarrow> string \<Rightarrow> PositionConstraintMsg \<Rightarrow>
    OrientationConstraintMsg list \<Rightarrow> (string \<times> IKConstraintSampler) list \<Rightarrow>
    (string \<times> IKConstraintSampler) list" where
  "full_pose_inner scene g pc [] usedL = usedL"
| "full_pose_inner scene g pc (oc # ocs) usedL =
     full_pose_inner scene g pc ocs
       (if p_link_name pc = o_link_name oc then
          if PositionConstraint_configure scene pc \<and> OrientationConstraint_configure scene oc
          then
            if IKConstraintSampler_configure scene g (IKSamplingPose (Some pc) (Some oc))
            then record_candidate scene (p_link_name pc)
                   (IKConstraintSampler g (IKSamplingPose (Some pc) (Some oc))) usedL
            else usedL
          else usedL
        else usedL)"

fun full_pose_loop :: "PlanningScene \<Rightarrow> string \<Rightarrow> PositionConstraintMsg list \<Rightarrow>
    OrientationConstraintMsg list \<Rightarrow> (string \<times> IKConstraintSampler) list \<Rightarrow>
    (string \<times> IKConstraintSampler) list" where
  "full_pose_loop scene g [] ocs usedL = usedL"
| "full_pose_loop scene g (pc # pcs) ocs usedL =
     full_pose_loop scene g pcs ocs (full_pose_inner scene g pc ocs usedL)"

fun position_only_loop :: "PlanningScene \<Rightarrow> string \<Rightarrow>
    (string \<times> IKConstraintSampler) list \<Rightarrow> PositionConstraintMsg list \<Rightarrow>
    (string \<times> IKConstraintSampler) list \<Rightarrow> (string \<times> IKConstraintSampler) list" where
  "position_only_loop scene g usedL_fullPose [] usedL = usedL"
| "position_only_loop scene g usedL_fullPose (pc # pcs) usedL =
     position_only_loop scene g usedL_fullPose pcs
       (if map_find (p_link_name pc) usedL_fullPose \<noteq> None then usedL
        else if PositionConstraint_configure scene pc then
          if IKConstraintSampler_configure scene g (IKSamplingPose (Some pc) None)
          then record_candidate scene (p_link_name pc)
                 (IKConstraintSampler g (IKSamplingPose (Some pc) None)) usedL
          else usedL
        else usedL)"

fun orientation_only_loop :: "PlanningScene \<Rightarrow> string \<Rightarrow>
    (string \<times> IKConstraintSampler) list \<Rightarrow> OrientationConstraintMsg list \<Rightarrow>
    (string \<times> IKConstraintSampler) list \<Rightarrow> (string \<times> IKConstraintSampler) list" where
  "orientation_only_loop scene g usedL_fullPose [] usedL = usedL"
| "orientation_only_loop scene g usedL_fullPose (oc # ocs) usedL =
     orientation_only_loop scene g usedL_fullPose ocs
       (if map_find (o_link_name oc) usedL_fullPose \<noteq> None then usedL
        else if OrientationConstraint_configure scene oc then
          if IKConstraintSampler_configure scene g (IKSamplingPose None (Some oc))
          then record_candidate scene (o_link_name oc)
                 (IKConstraintSampler g (IKSamplingPose None (Some oc))) usedL
          else usedL
        else usedL)"

text \<open>The table \<open>usedL\<close> after the three loops.\<close>

definition ik_candidates :: "PlanningScene \<Rightarrow> string \<Rightarrow> Constraints \<Rightarrow>
    (string \<times> IKConstraintSampler) list" where
  "ik_candidates scene g constr =
     (let usedL = full_pose_loop scene g (position_constraints constr)
                    (orientation_constraints constr) [];
          usedL_fullPose = usedL;
          usedL1 = position_only_loop scene g usedL_fullPose (position_constraints constr) usedL
      in orientation_only_loop scene g usedL_fullPose (orientation_constraints constr) usedL1)"

text \<open>The loop that looks for the smallest volume, from the second entry of the table on.\<close>

fun min_volume_loop :: "PlanningScene \<Rightarrow> (string \<times> IKConstraintSampler) list \<Rightarrow>
    IKConstraintSampler \<times> real \<Rightarrow> IKConstraintSampler \<times> real" where
  "min_volume_loop scene [] (iks, msv) = (iks, msv)"
| "min_volume_loop scene ((link, s) # rest) (iks, msv) =
     (let v = getSamplingVolume scene s
      in if v < msv then min_volume_loop scene rest (s, v)
         else min_volume_loop scene rest (iks, msv))"

text \<open>
  What the function does with the table: \<open>Some\<close> is the sampler it returns, \<open>None\<close> means
  that the table is empty and the function goes on.
\<close>

definition ik_resolve :: "PlanningScene \<Rightarrow> string \<Rightarrow> Sampler list \<Rightarrow>
    (string \<times> IKConstraintSampler) list \<Rightarrow> Sampler option" where
  "ik_resolve scene g samplers usedL =
     (if length usedL = 1 then
        (if samplers = [] then Some (IKSampler (snd (hd usedL)))
         else Some (UnionSampler g (samplers @ [IKSampler (snd (hd usedL))])))
      else if length usedL > 1 then
        (let (iks, msv) = min_volume_loop scene (tl usedL)
                            (snd (hd usedL), getSamplingVolume scene (snd (hd usedL)))
         in if samplers = [] then Some (IKSampler iks)
            else Some (UnionSampler g (samplers @ [IKSampler iks])))
      else None)"

definition ik_pass :: "PlanningScene \<Rightarrow> JointModelGroup \<Rightarrow> Sampler list \<Rightarrow> Constraints \<Rightarrow>
    Sampler option" where
  "ik_pass scene jmg samplers constr =
     (if fst (getSolverAllocators jmg) \<noteq> None
      then ik_resolve scene (getName jmg) samplers (ik_candidates scene (getName jmg) constr)
      else None)"

subsection \<open>Samplers of subgroups\<close>

text \<open>
  The variables of the loop over \<open>ik_subgroup_alloc\<close>. \<open>sub_constr_log\<close> is not a variable
  of the source: it keeps, for every subgroup visited, the indices of the constraints
  pushed on that subgroup's \<open>sub_constr\<close>.
\<close>

record subgroup_state =
  usedP :: "nat set"
  usedO :: "nat set"
  some_sampler_valid :: bool
  samplers :: "Sampler list"
  sub_constr_log :: "(addr \<times> nat list \<times> nat list) list"

text \<open>
  One of the two inner loops: the indices whose link the subgroup has and which are not in
  the used set are pushed (as indices of the constraints pushed) and inserted in the set.
\<close>

fun claim_loop :: "(nat \<Rightarrow> bool) \<Rightarrow> nat list \<Rightarrow> nat list \<times> nat set \<Rightarrow> nat list \<times> nat set" where
  "claim_loop has_link [] (sub, used) = (sub, used)"
| "claim_loop has_link (p # ps) (sub, used) =
     (if has_link p then
        (if p \<notin> used then claim_loop has_link ps (sub @ [p], insert p used)
         else claim_loop has_link ps (sub, used))
      else claim_loop has_link ps (sub, used))"

definition sub_constr_of :: "Constraints \<Rightarrow> nat list \<Rightarrow> nat list \<Rightarrow> Constraints" where
  "sub_constr_of constr subP subO =
     \<lparr>joint_constraints = [],
      position_constraints = map (\<lambda>p. position_constraints constr ! p) subP,
      orientation_constraints = map (\<lambda>p. orientation_constraints constr ! p) subO\<rparr>"

text \<open>
  The body of the loop for the subgroup at address \<open>a\<close>. \<open>select\<close> is the recursive call;
  it answers \<open>None\<close> when it does not return.
\<close>

definition subgroup_step :: "(string \<Rightarrow> Constraints \<Rightarrow> Sampler option option) \<Rightarrow>
    PlanningScene \<Rightarrow> Constraints \<Rightarrow> addr \<Rightarrow> subgroup_state \<Rightarrow> subgroup_state option" where
  "subgroup_step select scene constr a st =
     (let sub = group_at scene a;
          (subP, usedP') =
            claim_loop (\<lambda>p. hasLinkModel sub (p_link_name (position_constraints constr ! p)))
              [0..<length (position_constraints constr)] ([], usedP st);
          (subO, usedO') =
            claim_loop (\<lambda>p. hasLinkModel sub (o_link_name (orientation_constraints constr ! p)))
              [0..<length (orientation_constraints constr)] ([], usedO st);
          sub_constr = sub_constr_of constr subP subO;
          st' = st\<lparr>usedP := usedP', usedO := usedO',
                   sub_constr_log := sub_constr_log st @ [(a, subP, subO)]\<rparr>
      in if orientation_constraints sub_constr \<noteq> [] \<or> position_constraints sub_constr \<noteq> []
         then
           (case select (getName sub) sub_constr of
              None \<Rightarrow> None
            | Some None \<Rightarrow> Some st'
            | Some (Some cs) \<Rightarrow>
                Some (st'\<lparr>some_sampler_valid := True, samplers := samplers st' @ [cs]\<rparr>))
         else Some st')"

fun subgroup_loop :: "(string \<Rightarrow> Constraints \<Rightarrow> Sampler option option) \<Rightarrow>
    PlanningScene \<Rightarrow> Constraints \<Rightarrow> (addr \<times> SolverAllocatorFn) list \<Rightarrow> subgroup_state \<Rightarrow>
    subgroup_state option" where
  "subgroup_loop select scene constr [] st = Some st"
| "subgroup_loop select scene constr ((a, f) # rest) st =
     (case subgroup_step select scene constr a st of
        None \<Rightarrow> None
      | Some st' \<Rightarrow> subgroup_loop select scene constr rest st')"

definition subgroup_init :: "Sampler list \<Rightarrow> subgroup_state" where
  "subgroup_init s =
     \<lparr>usedP = {}, usedO = {}, some_sampler_valid = False, samplers = s, sub_constr_log = []\<rparr>"

subsection \<open>The function\<close>

text \<open>
  \<open>selectDefaultSampler\<close> calls itself for subgroups, to a depth that the groups of the
  robot model decide. The first argument bounds the depth of the calls: the result is
  \<open>None\<close> when the bound is reached, \<open>Some None\<close> when the function returns a null
  pointer and \<open>Some (Some s)\<close> when it returns the sampler \<open>s\<close>.
\<close>

primrec selectDefaultSampler :: "nat \<Rightarrow> PlanningScene \<Rightarrow> string \<Rightarrow> Constraints \<Rightarrow>
    Sampler option option" where
  "selectDefaultSampler 0 scene group_name constr = None"
| "selectDefaultSampler (Suc n) scene group_name constr =
     (case getJointModelGroup scene group_name of
        None \<Rightarrow> Some None
      | Some a \<Rightarrow>
          (let jmg = group_at scene a in
           case joint_pass scene jmg constr of
             Inl sampler \<Rightarrow> Some (Some sampler)
           | Inr joint_sampler \<Rightarrow>
               (let samplers0 = (case joint_sampler of Some s \<Rightarrow> [s] | None \<Rightarrow> []);
                    ik_subgroup_alloc = snd (getSolverAllocators jmg)
                in case ik_pass scene jmg samplers0 constr of
                     Some sampler \<Rightarrow> Some (Some sampler)
                   | None \<Rightarrow>
                       (case (if ik_subgroup_alloc \<noteq> []
                              then subgroup_loop (selectDefaultSampler n scene) scene constr
                                     ik_subgroup_alloc (subgroup_init samplers0)
                              else Some (subgroup_init samplers0)) of
                          None \<Rightarrow> None
                        | Some st \<Rightarrow>
                            if some_sampler_valid st
                            then Some (Some (UnionSampler (getName jmg) (samplers st)))
                            else Some joint_sampler))))"

section \<open>selectSampler\<close>

text \<open>
  A registered \<open>ConstraintSamplerAllocator\<close> with its two virtual functions, and the vector
  \<open>sampler_alloc_\<close> as a list. The first argument of \<open>selectSampler\<close> is the bound on
  the depth of the calls of \<open>selectDefaultSampler\<close>, which the loop over the allocators
  does not use.
\<close>

record ConstraintSamplerAllocator =
  canService :: "PlanningScene \<Rightarrow> string \<Rightarrow> Constraints \<Rightarrow> bool"
  alloc :: "PlanningScene \<Rightarrow> string \<Rightarrow> Constraints \<Rightarrow> Sampler option"

fun selectSampler :: "nat \<Rightarrow> ConstraintSamplerAllocator list \<Rightarrow> PlanningScene \<Rightarrow> string \<Rightarrow>
    Constraints \<Rightarrow> Sampler option option" where
  "selectSampler fuel [] scene group_name constr =
     selectDefaultSampler fuel scene group_name constr"
| "selectSampler fuel (a # sampler_alloc) scene group_name constr =
     (if canService a scene group_name constr then Some (alloc a scene group_name constr)
      else selectSampler fuel sampler_alloc scene group_name constr)"

section \<open>Notions used to state the properties\<close>

text \<open>
  The constraints that the loop over \<open>constr.joint_constraints\<close> keeps, said without the
  coverage map: those that configure and whose variable is a variable of the group, in the
  order of the input.
\<close>

definition kept_joint_constraints :: "PlanningScene \<Rightarrow> string list \<Rightarrow> JointConstraintMsg list \<Rightarrow>
    JointConstraint list" where
  "kept_joint_constraints scene names ms =
     List.map_filter
       (\<lambda>m. case JointConstraint_configure scene m of
               Some v \<Rightarrow> if v \<in> set names then Some (JointConstraint m v) else None
             | None \<Rightarrow> None) ms"

text \<open>
  The indices that one subgroup takes in the subgroup pass, said with a filter: those whose
  link the subgroup has and which are not in the used set. \<open>subgroup_result\<close> is the
  sampler that the recursive call gave for an entry of the log, if the call was made and
  gave one; \<open>logP\<close> and \<open>logO\<close> are all the indices of a log, in order;
  \<open>subgroup_trace\<close> is the log of a pass, computed without the recursive calls.
\<close>

definition claimedP :: "PlanningScene \<Rightarrow> Constraints \<Rightarrow> addr \<Rightarrow> nat set \<Rightarrow> nat list" where
  "claimedP scene constr a used =
     filter (\<lambda>p. hasLinkModel (group_at scene a) (p_link_name (position_constraints constr ! p)) \<and>
                 p \<notin> used) [0..<length (position_constraints constr)]"

definition claimedO :: "PlanningScene \<Rightarrow> Constraints \<Rightarrow> addr \<Rightarrow> nat set \<Rightarrow> nat list" where
  "claimedO scene constr a used =
     filter (\<lambda>p. hasLinkModel (group_at scene a) (o_link_name (orientation_constraints constr ! p)) \<and>
                 p \<notin> used) [0..<length (orientation_constraints constr)]"

definition subgroup_result :: "(string \<Rightarrow> Constraints \<Rightarrow> Sampler option option) \<Rightarrow>
    PlanningScene \<Rightarrow> Constraints \<Rightarrow> addr \<times> nat list \<times> nat list \<Rightarrow> Sampler option" where
  "subgroup_result select scene constr e =
     (case e of (a, subP, subO) \<Rightarrow>
        if subO \<noteq> [] \<or> subP \<noteq> [] then
          (case select (getName (group_at scene a)) (sub_constr_of constr subP subO) of
             Some (Some cs) \<Rightarrow> Some cs
           | _ \<Rightarrow> None)
        else None)"

definition logP :: "(addr \<times> nat list \<times> nat list) list \<Rightarrow> nat list" where
  "logP lg = concat (map (\<lambda>e. fst (snd e)) lg)"

definition logO :: "(addr \<times> nat list \<times> nat list) list \<Rightarrow> nat list" where
  "logO lg = concat (map (\<lambda>e. snd (snd e)) lg)"

fun subgroup_trace :: "PlanningScene \<Rightarrow> Constraints \<Rightarrow> (addr \<times> SolverAllocatorFn) list \<Rightarrow>
    nat set \<Rightarrow> nat set \<Rightarrow> (addr \<times> nat list \<times> nat list) list" where
  "subgroup_trace scene constr [] uP uO = []"
| "subgroup_trace scene constr ((a, f) # rest) uP uO =
     (a, claimedP scene constr a uP, claimedO scene constr a uO) #
     subgroup_trace scene constr rest
       (uP \<union> set (claimedP scene constr a uP)) (uO \<union> set (claimedO scene constr a uO))"

section \<open>A robot with two arms\<close>

text \<open>
  The scene in which the properties are tried: the groups \<open>left\<close> and \<open>right\<close>, each
  with two joints, two links and an IK allocator of its own, and the group \<open>arms\<close> of
  both, with no allocator for the whole group and one for each arm. The last digit of the
  body of a position or orientation message is the size of its region (zero does not
  configure) and the other digits tell where the region is; the volume of an IK sampler is
  the product of the sizes. A joint sampler configures from a list that is not empty and
  that does not bound one variable in two different ways.
\<close>

definition left_arm :: JointModelGroup where
  "left_arm = \<lparr>getName = ''left'', getVariableNames = [''ls'', ''le''],
     hasLinkModel = (\<lambda>l. l \<in> {''lw'', ''lg''}), getSolverAllocators = (Some 1, [])\<rparr>"

definition right_arm :: JointModelGroup where
  "right_arm = \<lparr>getName = ''right'', getVariableNames = [''rs'', ''re''],
     hasLinkModel = (\<lambda>l. l \<in> {''rw'', ''rg''}), getSolverAllocators = (Some 2, [])\<rparr>"

definition arms :: JointModelGroup where
  "arms = \<lparr>getName = ''arms'', getVariableNames = [''ls'', ''le'', ''rs'', ''re''],
     hasLinkModel = (\<lambda>l. l \<in> {''lw'', ''lg'', ''rw'', ''rg''}),
     getSolverAllocators = (None, [(1, 1), (2, 2)])\<rparr>"

definition volume :: "IKConstraintSampler \<Rightarrow> real" where
  "volume s =
     (case position_constraint (sampling_pose s) of
        Some pc \<Rightarrow> real (pc_body pc mod 10) | None \<Rightarrow> 1) *
     (case orientation_constraint (sampling_pose s) of
        Some oc \<Rightarrow> real (oc_body oc mod 10) | None \<Rightarrow> 1)"

definition compatible :: "JointConstraint list \<Rightarrow> bool" where
  "compatible jc =
     list_all (\<lambda>j. list_all (\<lambda>j'. getJointVariableName j \<noteq> getJointVariableName j' \<or>
                 jc_body (jc_msg j) = jc_body (jc_msg j')) jc) jc"

definition robot :: PlanningScene where
  "robot =
     \<lparr>getJointModelGroup =
        (\<lambda>n. if n = ''left'' then Some 1 else if n = ''right'' then Some 2
              else if n = ''arms'' then Some 3 else None),
      group_at = (\<lambda>a. if a = 1 then left_arm else if a = 2 then right_arm else arms),
      JointConstraint_configure =
        (\<lambda>m. if joint_name m \<in> {''ls'', ''le'', ''rs'', ''re''} then Some (joint_name m) else None),
      PositionConstraint_configure = (\<lambda>pc. 0 < pc_body pc mod 10),
      OrientationConstraint_configure = (\<lambda>oc. 0 < oc_body oc mod 10),
      JointConstraintSampler_configure = (\<lambda>g jc. jc \<noteq> [] \<and> compatible jc),
      IKConstraintSampler_configure = (\<lambda>g pose. True),
      getSamplingVolume = volume\<rparr>"

definition jcm :: "string \<Rightarrow> nat \<Rightarrow> JointConstraintMsg" where
  "jcm n b = \<lparr>joint_name = n, jc_body = b\<rparr>"

definition pcm :: "string \<Rightarrow> nat \<Rightarrow> PositionConstraintMsg" where
  "pcm n b = \<lparr>p_link_name = n, pc_body = b\<rparr>"

definition ocm :: "string \<Rightarrow> nat \<Rightarrow> OrientationConstraintMsg" where
  "ocm n b = \<lparr>o_link_name = n, oc_body = b\<rparr>"

text \<open>
  The same robot with a group \<open>hand\<close>, which has the link \<open>lg\<close> as \<open>left\<close> does, and
  a group \<open>upper\<close> with allocators for \<open>left\<close> and \<open>hand\<close>. In this scene an IK
  sampler configures for \<open>hand\<close> only.
\<close>

definition hand :: JointModelGroup where
  "hand = \<lparr>getName = ''hand'', getVariableNames = [''lf''],
     hasLinkModel = (\<lambda>l. l = ''lg''), getSolverAllocators = (Some 4, [])\<rparr>"

definition upper :: JointModelGroup where
  "upper = \<lparr>getName = ''upper'', getVariableNames = [''ls'', ''le'', ''lf''],
     hasLinkModel = (\<lambda>l. l \<in> {''lw'', ''lg''}),
     getSolverAllocators = (None, [(1, 1), (4, 4)])\<rparr>"

definition robot_with_hand :: PlanningScene where
  "robot_with_hand =
     robot\<lparr>getJointModelGroup :=
             (\<lambda>n. if n = ''hand'' then Some 4 else if n = ''upper'' then Some 5
                   else getJointModelGroup robot n),
           group_at := (\<lambda>a. if a = 4 then hand else if a = 5 then upper else group_at robot a),
           IKConstraintSampler_configure := (\<lambda>g pose. g = ''hand'')\<rparr>"

text \<open>
  Three allocators to register: one that services nothing, one that services the group
  \<open>left\<close> and allocates nothing, and one that services everything.
\<close>

definition refusing_allocator :: ConstraintSamplerAllocator where
  "refusing_allocator = \<lparr>canService = (\<lambda>scene g c. False), alloc = (\<lambda>scene g c. None)\<rparr>"

definition failing_allocator :: ConstraintSamplerAllocator where
  "failing_allocator = \<lparr>canService = (\<lambda>scene g c. g = ''left''), alloc = (\<lambda>scene g c. None)\<rparr>"

definition joint_allocator :: ConstraintSamplerAllocator where
  "joint_allocator =
     \<lparr>canService = (\<lambda>scene g c. True), alloc = (\<lambda>scene g c. Some (JointSampler g []))\<rparr>"

section \<open>Properties of KinematicTrajectory::swap\<close>

text \<open>
  Claim C10. \<open>KinematicTrajectory::swap\<close> with another trajectory exchanges the model
  handle, the group pointer and the waypoint list of the two trajectories, and leaves the
  duration list of each as it was.
\<close>

theorem swap_keeps_durations:
  "swap this other =
     (\<lparr>kmodel = kmodel other, group_ptr = group_ptr other, waypoints = waypoints other,
       duration_from_previous = duration_from_previous this\<rparr>,
      \<lparr>kmodel = kmodel this, group_ptr = group_ptr this, waypoints = waypoints this,
       duration_from_previous = duration_from_previous other\<rparr>)"
  by (simp add: swap_def std_swap_def)

section \<open>The ordered map\<close>

lemma map_find_assign_same: "map_find k (map_assign k v m) = Some v"
  by (induction m) (auto simp: map_find_def)

lemma map_find_assign_other: "k' \<noteq> k \<Longrightarrow> map_find k' (map_assign k v m) = map_find k' m"
  by (induction m) (auto simp: map_find_def)

lemma keys_map_assign: "fst ` set (map_assign k v m) = insert k (fst ` set m)"
proof (induction m)
  case Nil
  then show ?case by simp
next
  case (Cons e m)
  obtain k' v' where e: "e = (k', v')" by (cases e)
  show ?case using Cons.IH by (simp add: e insert_commute)
qed

lemma sorted_map_assign:
  "sorted_wrt (<) (map fst m) \<Longrightarrow> sorted_wrt (<) (map fst (map_assign k v m))"
proof (induction m)
  case Nil
  then show ?case by simp
next
  case (Cons e m)
  obtain k' v' where e: "e = (k', v')" by (cases e)
  have "\<forall>x \<in> fst ` set (map_assign k v m). k' < x" if "k' < k"
    unfolding keys_map_assign using that Cons.prems by (simp add: e)
  with Cons show ?case
    by (auto simp: e)
qed

section \<open>The joint constraints\<close>

lemma map_find_None_iff: "map_find k m = None \<longleftrightarrow> k \<notin> fst ` set m"
  by (simp add: map_find_def map_of_eq_None_iff)

lemma kept_Nil: "kept_joint_constraints scene names [] = []"
  by (simp add: kept_joint_constraints_def map_filter_simps)

lemma kept_Cons:
  "kept_joint_constraints scene names (m # ms) =
     (case JointConstraint_configure scene m of
        Some v \<Rightarrow> if v \<in> set names then JointConstraint m v # kept_joint_constraints scene names ms
                  else kept_joint_constraints scene names ms
      | None \<Rightarrow> kept_joint_constraints scene names ms)"
  by (simp add: kept_joint_constraints_def map_filter_simps split: option.splits)

lemma cjc_jc:
  "fst ` set cov = set names \<Longrightarrow>
   snd (configure_joint_constraints scene ms (cov, jc)) = jc @ kept_joint_constraints scene names ms"
proof (induction ms arbitrary: cov jc)
  case Nil
  then show ?case by (simp add: kept_Nil)
next
  case (Cons m ms)
  show ?case
  proof (cases "JointConstraint_configure scene m")
    case None
    then show ?thesis using Cons.IH [OF Cons.prems] by (simp add: kept_Cons)
  next
    case (Some v)
    show ?thesis
    proof (cases "v \<in> set names")
      case True
      then have in_cov: "map_find v cov \<noteq> None"
        using Cons.prems by (simp add: map_find_None_iff)
      have keys: "fst ` set (map_assign v True cov) = set names"
        using True Cons.prems by (simp add: keys_map_assign insert_absorb)
      show ?thesis using Some True in_cov Cons.IH [OF keys] by (simp add: kept_Cons)
    next
      case False
      then have "map_find v cov = None"
        using Cons.prems by (simp add: map_find_None_iff)
      then show ?thesis using Some False Cons.IH [OF Cons.prems] by (simp add: kept_Cons)
    qed
  qed
qed

lemma cjc_cov_find:
  "map_find v (fst (configure_joint_constraints scene ms (cov, jc))) =
     (if v \<in> fst ` set cov \<and> (\<exists>m \<in> set ms. JointConstraint_configure scene m = Some v)
      then Some True else map_find v cov)"
proof (induction ms arbitrary: cov jc)
  case Nil
  then show ?case by simp
next
  case (Cons m ms)
  show ?case
  proof (cases "JointConstraint_configure scene m")
    case None
    then show ?thesis using Cons.IH by simp
  next
    case (Some w)
    show ?thesis
    proof (cases "map_find w cov = None")
      case True
      then have "w \<notin> fst ` set cov" by (simp add: map_find_None_iff)
      then show ?thesis using Some True Cons.IH by auto
    next
      case False
      then have w: "w \<in> fst ` set cov" by (simp add: map_find_None_iff)
      have IH: "map_find v (fst (configure_joint_constraints scene ms (map_assign w True cov, jc'))) =
          (if v \<in> fst ` set cov \<and> (\<exists>m \<in> set ms. JointConstraint_configure scene m = Some v)
           then Some True else map_find v (map_assign w True cov))" for jc'
        using Cons.IH [of "map_assign w True cov" jc'] w by (simp add: keys_map_assign insert_absorb)
      show ?thesis
      proof (cases "v = w")
        case True
        then show ?thesis using Some False w IH by (simp add: map_find_assign_same)
      next
        case neq: False
        then show ?thesis using Some False IH by (auto simp: map_find_assign_other)
      qed
    qed
  qed
qed

lemma cjc_cov_keys:
  "fst ` set (fst (configure_joint_constraints scene ms (cov, jc))) = fst ` set cov"
proof (induction ms arbitrary: cov jc)
  case Nil
  then show ?case by simp
next
  case (Cons m ms)
  then show ?case
    by (auto simp: keys_map_assign insert_absorb map_find_None_iff split: option.splits)
qed

lemma cjc_cov_sorted:
  "sorted_wrt (<) (map fst cov) \<Longrightarrow>
   sorted_wrt (<) (map fst (fst (configure_joint_constraints scene ms (cov, jc))))"
proof (induction ms arbitrary: cov jc)
  case Nil
  then show ?case by simp
next
  case (Cons m ms)
  then show ?case
    by (auto simp: sorted_map_assign split: option.splits)
qed

lemma fold_assign_find:
  "map_find v (fold (\<lambda>v m. map_assign v False m) names acc) =
     (if v \<in> set names then Some False else map_find v acc)"
  by (induction names arbitrary: acc) (auto simp: map_find_assign_same map_find_assign_other)

lemma fold_assign_keys:
  "fst ` set (fold (\<lambda>v m. map_assign v False m) names acc) = set names \<union> fst ` set acc"
  by (induction names arbitrary: acc) (auto simp: keys_map_assign)

lemma fold_assign_sorted:
  "sorted_wrt (<) (map fst acc) \<Longrightarrow>
   sorted_wrt (<) (map fst (fold (\<lambda>v m. map_assign v False m) names acc))"
  by (induction names arbitrary: acc) (auto simp: sorted_map_assign)

lemma init_joint_coverage_keys: "fst ` set (init_joint_coverage names) = set names"
  by (simp add: init_joint_coverage_def fold_assign_keys)

lemma init_joint_coverage_find:
  "map_find v (init_joint_coverage names) = (if v \<in> set names then Some False else None)"
  unfolding init_joint_coverage_def fold_assign_find by (simp add: map_find_def)

lemma init_joint_coverage_sorted: "sorted_wrt (<) (map fst (init_joint_coverage names))"
  by (simp add: init_joint_coverage_def fold_assign_sorted)

lemma full_coverage_iff:
  assumes "sorted_wrt (<) (map fst cov)"
  shows "full_coverage cov \<longleftrightarrow> (\<forall>k \<in> fst ` set cov. map_find k cov = Some True)"
proof -
  have d: "distinct (map fst cov)"
    using assms strict_sorted_iff by blast
  have "(\<forall>e \<in> set cov. snd e) \<longleftrightarrow> (\<forall>k \<in> fst ` set cov. map_of cov k = Some True)"
  proof
    assume a: "\<forall>e \<in> set cov. snd e"
    show "\<forall>k \<in> fst ` set cov. map_of cov k = Some True"
    proof
      fix k assume "k \<in> fst ` set cov"
      then obtain b where kb: "(k, b) \<in> set cov" by auto
      with a have "b" by auto
      with kb d show "map_of cov k = Some True" by simp
    qed
  next
    assume a: "\<forall>k \<in> fst ` set cov. map_of cov k = Some True"
    show "\<forall>e \<in> set cov. snd e"
    proof
      fix e assume e: "e \<in> set cov"
      then have "map_of cov (fst e) = Some True" using a by auto
      moreover have "map_of cov (fst e) = Some (snd e)" using e d by simp
      ultimately show "snd e" by simp
    qed
  qed
  then show ?thesis
    by (simp add: full_coverage_def list_all_iff map_find_def)
qed

lemma full_coverage_joint_loop:
  "full_coverage (fst (configure_joint_constraints scene ms (init_joint_coverage names, []))) \<longleftrightarrow>
     (\<forall>v \<in> set names. \<exists>m \<in> set ms. JointConstraint_configure scene m = Some v)"
proof -
  let ?cov = "fst (configure_joint_constraints scene ms (init_joint_coverage names, []))"
  have s: "sorted_wrt (<) (map fst ?cov)"
    by (rule cjc_cov_sorted) (rule init_joint_coverage_sorted)
  have k: "fst ` set ?cov = set names"
    by (simp add: cjc_cov_keys init_joint_coverage_keys)
  show ?thesis
    unfolding full_coverage_iff [OF s] k
    by (simp add: cjc_cov_find init_joint_coverage_keys init_joint_coverage_find)
qed

lemma joint_loop_jc:
  "snd (configure_joint_constraints scene ms (init_joint_coverage names, [])) =
     kept_joint_constraints scene names ms"
  using cjc_jc [of "init_joint_coverage names" names scene ms "[]"]
  by (simp add: init_joint_coverage_keys)

lemma joint_pass_eq:
  "joint_pass scene jmg constr =
     (let jc = kept_joint_constraints scene (getVariableNames jmg) (joint_constraints constr) in
      if joint_constraints constr = [] then Inr None
      else if (\<forall>v \<in> set (getVariableNames jmg).
                 \<exists>m \<in> set (joint_constraints constr). JointConstraint_configure scene m = Some v)
      then (if JointConstraintSampler_configure scene (getName jmg) jc
            then Inl (JointSampler (getName jmg) jc) else Inr None)
      else if jc \<noteq> [] \<and> JointConstraintSampler_configure scene (getName jmg) jc
      then Inr (Some (JointSampler (getName jmg) jc))
      else Inr None)"
proof -
  let ?r = "configure_joint_constraints scene (joint_constraints constr)
              (init_joint_coverage (getVariableNames jmg), [])"
  have r: "?r = (fst ?r, kept_joint_constraints scene (getVariableNames jmg) (joint_constraints constr))"
    using joint_loop_jc [of scene "joint_constraints constr" "getVariableNames jmg"]
    by (metis prod.collapse)
  show ?thesis
    unfolding joint_pass_def Let_def
    by (subst r, subst r) (auto simp: full_coverage_joint_loop)
qed

lemma cjc_append:
  "configure_joint_constraints scene (ms1 @ ms2) st =
     configure_joint_constraints scene ms2 (configure_joint_constraints scene ms1 st)"
proof (induction ms1 arbitrary: st)
  case Nil
  obtain cov jc where st: "st = (cov, jc)" by (cases st)
  show ?case by (simp add: st)
next
  case (Cons m ms1)
  obtain cov jc where st: "st = (cov, jc)" by (cases st)
  show ?case using Cons.IH by (simp add: st split: option.splits)
qed

lemma cjc_skip:
  assumes "JointConstraint_configure scene m = Some v" and "v \<notin> fst ` set cov"
  shows "configure_joint_constraints scene (m # ms) (cov, jc) =
         configure_joint_constraints scene ms (cov, jc)"
  using assms by (simp add: map_find_None_iff)

lemma cjc_remove_foreign:
  assumes "JointConstraint_configure scene m = Some v" and "v \<notin> set names"
  shows "configure_joint_constraints scene (ms1 @ m # ms2) (init_joint_coverage names, []) =
         configure_joint_constraints scene (ms1 @ ms2) (init_joint_coverage names, [])"
proof -
  let ?st = "configure_joint_constraints scene ms1 (init_joint_coverage names, [])"
  have "fst ` set (fst ?st) = set names"
    by (simp add: cjc_cov_keys init_joint_coverage_keys)
  then have "v \<notin> fst ` set (fst ?st)" using assms(2) by simp
  then have "configure_joint_constraints scene (m # ms2) (fst ?st, snd ?st) =
      configure_joint_constraints scene ms2 (fst ?st, snd ?st)"
    using assms(1) by (rule cjc_skip [rotated])
  then show ?thesis by (simp add: cjc_append)
qed

lemma kept_variables:
  "j \<in> set (kept_joint_constraints scene names ms) \<Longrightarrow> getJointVariableName j \<in> set names"
  by (induction ms) (auto simp: kept_Nil kept_Cons split: option.splits if_splits)

lemma joint_pass_remove_foreign:
  assumes "JointConstraint_configure scene m = Some v"
    and "v \<notin> set (getVariableNames jmg)" and "getVariableNames jmg \<noteq> []"
  shows "joint_pass scene jmg
           \<lparr>joint_constraints = ms1 @ m # ms2, position_constraints = ps,
            orientation_constraints = os\<rparr> =
         joint_pass scene jmg
           \<lparr>joint_constraints = ms1 @ ms2, position_constraints = ps, orientation_constraints = os\<rparr>"
proof -
  let ?names = "getVariableNames jmg"
  let ?r = "\<lambda>ms. configure_joint_constraints scene ms (init_joint_coverage ?names, [])"
  have eq: "?r (ms1 @ m # ms2) = ?r (ms1 @ ms2)"
    using assms(1,2) by (rule cjc_remove_foreign)
  show ?thesis
  proof (cases "ms1 @ ms2 = []")
    case False
    then show ?thesis by (simp add: joint_pass_def eq)
  next
    case True
    obtain w where w: "w \<in> set ?names" using assms(3) by (cases ?names) auto
    have "\<not> (\<forall>v \<in> set ?names. \<exists>m' \<in> set [m]. JointConstraint_configure scene m' = Some v)"
      using w assms(1,2) by auto
    moreover have "kept_joint_constraints scene ?names [m] = []"
      using assms(1,2) by (simp add: kept_Cons kept_Nil)
    ultimately show ?thesis using True
      by (simp add: joint_pass_eq Let_def)
  qed
qed

lemma ik_pass_joint_constraints:
  "ik_pass scene jmg s
     \<lparr>joint_constraints = x, position_constraints = ps, orientation_constraints = os\<rparr> =
   ik_pass scene jmg s
     \<lparr>joint_constraints = y, position_constraints = ps, orientation_constraints = os\<rparr>"
  by (simp add: ik_pass_def ik_candidates_def)

lemma subgroup_step_joint_constraints:
  "subgroup_step select scene
     \<lparr>joint_constraints = x, position_constraints = ps, orientation_constraints = os\<rparr> a st =
   subgroup_step select scene
     \<lparr>joint_constraints = y, position_constraints = ps, orientation_constraints = os\<rparr> a st"
  by (simp add: subgroup_step_def sub_constr_of_def)

lemma subgroup_loop_joint_constraints:
  "subgroup_loop select scene
     \<lparr>joint_constraints = x, position_constraints = ps, orientation_constraints = os\<rparr> subs st =
   subgroup_loop select scene
     \<lparr>joint_constraints = y, position_constraints = ps, orientation_constraints = os\<rparr> subs st"
proof (induction subs arbitrary: st)
  case Nil
  then show ?case by simp
next
  case (Cons e subs)
  obtain a f where e: "e = (a, f)" by (cases e)
  show ?case
    using Cons.IH subgroup_step_joint_constraints [of select scene x ps os a st y]
    by (simp add: e split: option.splits)
qed

section \<open>Full coverage by joint constraints\<close>

text \<open>
  Claim C1, as amended. When the group resolves, the input has a joint constraint, every
  variable of the group is the variable of a joint constraint that configures, and the
  joint sampler configures from the constraints kept, \<open>selectDefaultSampler\<close> returns that
  joint sampler from the block on joint constraints, before the IK and subgroup passes,
  whatever the position and orientation constraints are: the result is the same for every
  \<open>ps\<close> and \<open>os\<close>, and it is neither an IK sampler nor a union.
\<close>

theorem full_joint_coverage_returns_joint_sampler:
  assumes "getJointModelGroup scene group_name = Some a"
    and "js \<noteq> []"
    and "\<forall>v \<in> set (getVariableNames (group_at scene a)).
           \<exists>m \<in> set js. JointConstraint_configure scene m = Some v"
    and "JointConstraintSampler_configure scene (getName (group_at scene a))
           (kept_joint_constraints scene (getVariableNames (group_at scene a)) js)"
  shows "joint_pass scene (group_at scene a)
           \<lparr>joint_constraints = js, position_constraints = ps, orientation_constraints = os\<rparr> =
         Inl (JointSampler (getName (group_at scene a))
           (kept_joint_constraints scene (getVariableNames (group_at scene a)) js)) \<and>
         selectDefaultSampler (Suc n) scene group_name
           \<lparr>joint_constraints = js, position_constraints = ps, orientation_constraints = os\<rparr> =
         Some (Some (JointSampler (getName (group_at scene a))
           (kept_joint_constraints scene (getVariableNames (group_at scene a)) js)))"
  using assms by (simp add: joint_pass_eq Let_def)

theorem full_joint_coverage_returns_joint_sampler_witness:
  "getJointModelGroup robot ''left'' = Some 1 \<and>
   selectDefaultSampler (Suc 0) robot ''left''
     \<lparr>joint_constraints = [jcm ''ls'' 1, jcm ''le'' 1, jcm ''ls'' 1, jcm ''re'' 4],
      position_constraints = [pcm ''lg'' 3], orientation_constraints = [ocm ''lg'' 2]\<rparr> =
   Some (Some (JointSampler ''left''
     [JointConstraint (jcm ''ls'' 1) ''ls'', JointConstraint (jcm ''le'' 1) ''le'',
      JointConstraint (jcm ''ls'' 1) ''ls'']))"
proof -
  let ?js = "[jcm ''ls'' 1, jcm ''le'' 1, jcm ''ls'' 1, jcm ''re'' 4]"
  have g: "getJointModelGroup robot ''left'' = Some 1"
    by code_simp
  have ne: "?js \<noteq> []"
    by simp
  have cov: "\<forall>v \<in> set (getVariableNames (group_at robot 1)).
           \<exists>m \<in> set ?js. JointConstraint_configure robot m = Some v"
    by code_simp
  have k: "kept_joint_constraints robot (getVariableNames (group_at robot 1)) ?js =
     [JointConstraint (jcm ''ls'' 1) ''ls'', JointConstraint (jcm ''le'' 1) ''le'',
      JointConstraint (jcm ''ls'' 1) ''ls'']"
    by code_simp
  have n: "getName (group_at robot 1) = ''left''"
    by code_simp
  have c: "JointConstraintSampler_configure robot (getName (group_at robot 1))
           (kept_joint_constraints robot (getVariableNames (group_at robot 1)) ?js)"
    by code_simp
  show ?thesis
    using g full_joint_coverage_returns_joint_sampler
      [OF g ne cov c, of "[pcm ''lg'' 3]" "[ocm ''lg'' 2]" 0]
    unfolding k n by blast
qed

text \<open>
  Claim C1 as first stated fails where the joint sampler does not configure. In the example
  the three joint constraints cover both variables of \<open>left\<close>, two of them bound \<open>ls\<close>
  differently, the joint sampler does not configure, and the function goes on to the IK
  samplers and returns one.
\<close>

theorem full_joint_coverage_counterexample:
  "getJointModelGroup robot ''left'' = Some 1 \<and>
   getVariableNames (group_at robot 1) = [''ls'', ''le''] \<and>
   JointConstraint_configure robot (jcm ''ls'' 1) = Some ''ls'' \<and>
   JointConstraint_configure robot (jcm ''le'' 1) = Some ''le'' \<and>
   selectDefaultSampler (Suc 0) robot ''left''
     \<lparr>joint_constraints = [jcm ''ls'' 1, jcm ''le'' 1, jcm ''ls'' 2],
      position_constraints = [pcm ''lg'' 3], orientation_constraints = []\<rparr> =
   Some (Some (IKSampler (IKConstraintSampler ''left'' (IKSamplingPose (Some (pcm ''lg'' 3)) None))))"
  by code_simp

section \<open>Joint constraints on variables of other groups\<close>

text \<open>
  Claim C9. A joint constraint that configures and whose variable is not a variable of the
  group leaves the coverage map and the list \<open>jc\<close> as they are without it, wherever it
  stands in the input; every constraint of \<open>jc\<close>, the list given to the joint sampler, is
  on a variable of the group; and, for a group that has a variable, the function returns
  the same with and without the constraint.
\<close>

theorem foreign_joint_constraint_excluded:
  assumes "getJointModelGroup scene group_name = Some a"
    and "JointConstraint_configure scene m = Some v"
    and "v \<notin> set (getVariableNames (group_at scene a))"
  shows "configure_joint_constraints scene (ms1 @ m # ms2)
           (init_joint_coverage (getVariableNames (group_at scene a)), []) =
         configure_joint_constraints scene (ms1 @ ms2)
           (init_joint_coverage (getVariableNames (group_at scene a)), []) \<and>
         (\<forall>j \<in> set (snd (configure_joint_constraints scene (ms1 @ m # ms2)
           (init_joint_coverage (getVariableNames (group_at scene a)), []))).
           getJointVariableName j \<in> set (getVariableNames (group_at scene a))) \<and>
         (getVariableNames (group_at scene a) \<noteq> [] \<longrightarrow>
          selectDefaultSampler n scene group_name
            \<lparr>joint_constraints = ms1 @ m # ms2, position_constraints = ps,
             orientation_constraints = os\<rparr> =
          selectDefaultSampler n scene group_name
            \<lparr>joint_constraints = ms1 @ ms2, position_constraints = ps,
             orientation_constraints = os\<rparr>)"
proof (intro conjI impI)
  show "configure_joint_constraints scene (ms1 @ m # ms2)
           (init_joint_coverage (getVariableNames (group_at scene a)), []) =
         configure_joint_constraints scene (ms1 @ ms2)
           (init_joint_coverage (getVariableNames (group_at scene a)), [])"
    using assms(2,3) by (rule cjc_remove_foreign)
  show "\<forall>j \<in> set (snd (configure_joint_constraints scene (ms1 @ m # ms2)
           (init_joint_coverage (getVariableNames (group_at scene a)), []))).
           getJointVariableName j \<in> set (getVariableNames (group_at scene a))"
    by (simp add: joint_loop_jc kept_variables)
next
  assume ne: "getVariableNames (group_at scene a) \<noteq> []"
  show "selectDefaultSampler n scene group_name
         \<lparr>joint_constraints = ms1 @ m # ms2, position_constraints = ps,
          orientation_constraints = os\<rparr> =
       selectDefaultSampler n scene group_name
         \<lparr>joint_constraints = ms1 @ ms2, position_constraints = ps, orientation_constraints = os\<rparr>"
  proof (cases n)
    case 0
    then show ?thesis by simp
  next
    case (Suc k)
    show ?thesis
      by (simp add: Suc assms(1) Let_def joint_pass_remove_foreign [OF assms(2,3) ne]
          ik_pass_joint_constraints [of scene _ _ "ms1 @ m # ms2" ps os "ms1 @ ms2"]
          subgroup_loop_joint_constraints [of _ scene "ms1 @ m # ms2" ps os _ _ "ms1 @ ms2"]
          cong: sum.case_cong option.case_cong if_cong)
  qed
qed

theorem foreign_joint_constraint_excluded_witness:
  "getJointModelGroup robot ''left'' = Some 1 \<and>
   JointConstraint_configure robot (jcm ''re'' 4) = Some ''re'' \<and>
   ''re'' \<notin> set (getVariableNames (group_at robot 1)) \<and>
   configure_joint_constraints robot ([jcm ''ls'' 1] @ jcm ''re'' 4 # [jcm ''le'' 2])
     (init_joint_coverage (getVariableNames (group_at robot 1)), []) =
   configure_joint_constraints robot ([jcm ''ls'' 1] @ [jcm ''le'' 2])
     (init_joint_coverage (getVariableNames (group_at robot 1)), []) \<and>
   selectDefaultSampler 1 robot ''left''
     \<lparr>joint_constraints = [jcm ''ls'' 1] @ jcm ''re'' 4 # [jcm ''le'' 2],
      position_constraints = [], orientation_constraints = []\<rparr> =
   selectDefaultSampler 1 robot ''left''
     \<lparr>joint_constraints = [jcm ''ls'' 1] @ [jcm ''le'' 2],
      position_constraints = [], orientation_constraints = []\<rparr>"
proof -
  have g: "getJointModelGroup robot ''left'' = Some 1"
    by code_simp
  have c: "JointConstraint_configure robot (jcm ''re'' 4) = Some ''re''"
    by code_simp
  have f: "''re'' \<notin> set (getVariableNames (group_at robot 1))"
    by code_simp
  have ne: "getVariableNames (group_at robot 1) \<noteq> []"
    by code_simp
  show ?thesis
    using g c f ne
      foreign_joint_constraint_excluded [OF g c f, of "[jcm ''ls'' 1]" "[jcm ''le'' 2]" 1 "[]" "[]"]
    by blast
qed

section \<open>The candidate table of the whole-group IK pass\<close>

lemma record_candidate_find:
  "map_find link (record_candidate scene link iks usedL) =
     (case map_find link usedL of
        Some stored \<Rightarrow>
          if getSamplingVolume scene stored < getSamplingVolume scene iks then Some stored
          else Some iks
      | None \<Rightarrow> Some iks)"
  by (simp add: record_candidate_def map_find_assign_same split: option.splits)

lemma record_candidate_other:
  "l \<noteq> link \<Longrightarrow> map_find l (record_candidate scene link iks usedL) = map_find l usedL"
  by (simp add: record_candidate_def map_find_assign_other Let_def)

lemma record_candidate_sorted:
  "sorted_wrt (<) (map fst usedL) \<Longrightarrow>
   sorted_wrt (<) (map fst (record_candidate scene link iks usedL))"
  by (simp add: record_candidate_def sorted_map_assign Let_def)

lemma full_pose_inner_sorted:
  "sorted_wrt (<) (map fst usedL) \<Longrightarrow>
   sorted_wrt (<) (map fst (full_pose_inner scene g pc ocs usedL))"
  by (induction ocs arbitrary: usedL) (simp_all add: record_candidate_sorted)

lemma full_pose_loop_sorted:
  "sorted_wrt (<) (map fst usedL) \<Longrightarrow>
   sorted_wrt (<) (map fst (full_pose_loop scene g pcs ocs usedL))"
  by (induction pcs arbitrary: usedL) (simp_all add: full_pose_inner_sorted)

lemma position_only_loop_sorted:
  "sorted_wrt (<) (map fst usedL) \<Longrightarrow>
   sorted_wrt (<) (map fst (position_only_loop scene g fp pcs usedL))"
  by (induction pcs arbitrary: usedL) (simp_all add: record_candidate_sorted)

lemma orientation_only_loop_sorted:
  "sorted_wrt (<) (map fst usedL) \<Longrightarrow>
   sorted_wrt (<) (map fst (orientation_only_loop scene g fp ocs usedL))"
  by (induction ocs arbitrary: usedL) (simp_all add: record_candidate_sorted)

lemma ik_candidates_sorted: "sorted_wrt (<) (map fst (ik_candidates scene g constr))"
  by (simp add: ik_candidates_def Let_def orientation_only_loop_sorted position_only_loop_sorted
      full_pose_loop_sorted)

lemma min_volume_loop_first_min:
  assumes "sorted_wrt (<) (map fst rest)"
    and "(lb, b) \<in> P"
    and "\<forall>e \<in> P. getSamplingVolume scene b \<le> getSamplingVolume scene (snd e) \<and>
           (getSamplingVolume scene (snd e) = getSamplingVolume scene b \<longrightarrow> lb \<le> fst e)"
    and "\<forall>e \<in> P. \<forall>e' \<in> set rest. fst e < fst e'"
  shows "\<exists>e \<in> P \<union> set rest.
           min_volume_loop scene rest (b, getSamplingVolume scene b) =
             (snd e, getSamplingVolume scene (snd e)) \<and>
           (\<forall>e' \<in> P \<union> set rest.
              getSamplingVolume scene (snd e) \<le> getSamplingVolume scene (snd e') \<and>
              (getSamplingVolume scene (snd e') = getSamplingVolume scene (snd e) \<longrightarrow>
                 fst e \<le> fst e'))"
  using assms
proof (induction rest arbitrary: P lb b)
  case Nil
  then show ?case by (intro bexI [of _ "(lb, b)"]) auto
next
  case (Cons x rest)
  obtain l s where x: "x = (l, s)" by (cases x)
  let ?P = "insert (l, s) P"
  have srt: "sorted_wrt (<) (map fst rest)"
    using Cons.prems(1) by simp
  have ord: "\<forall>e \<in> ?P. \<forall>e' \<in> set rest. fst e < fst e'"
    using Cons.prems(1,4) by (auto simp: x)
  have lb_l: "lb < l"
    using Cons.prems(2,4) by (auto simp: x)
  show ?case
  proof (cases "getSamplingVolume scene s < getSamplingVolume scene b")
    case True
    have inv: "\<forall>e \<in> ?P. getSamplingVolume scene s \<le> getSamplingVolume scene (snd e) \<and>
           (getSamplingVolume scene (snd e) = getSamplingVolume scene s \<longrightarrow> l \<le> fst e)"
      using True Cons.prems(3) by fastforce
    have "(l, s) \<in> ?P" by simp
    from Cons.IH [OF srt this inv ord] show ?thesis
      using True by (simp add: x)
  next
    case False
    have inv: "\<forall>e \<in> ?P. getSamplingVolume scene b \<le> getSamplingVolume scene (snd e) \<and>
           (getSamplingVolume scene (snd e) = getSamplingVolume scene b \<longrightarrow> lb \<le> fst e)"
      using False Cons.prems(3) lb_l by auto
    have "(lb, b) \<in> ?P" using Cons.prems(2) by simp
    from Cons.IH [OF srt this inv ord] show ?thesis
      using False by (simp add: x)
  qed
qed

lemma ik_resolve_min:
  assumes "sorted_wrt (<) (map fst usedL)" and "1 < length usedL"
  shows "\<exists>e \<in> set usedL.
           ik_resolve scene g smp usedL =
             Some (if smp = [] then IKSampler (snd e)
                   else UnionSampler g (smp @ [IKSampler (snd e)])) \<and>
           (\<forall>e' \<in> set usedL.
              getSamplingVolume scene (snd e) \<le> getSamplingVolume scene (snd e') \<and>
              (getSamplingVolume scene (snd e') = getSamplingVolume scene (snd e) \<longrightarrow>
                 fst e \<le> fst e'))"
proof -
  obtain x rest where u: "usedL = x # rest" using assms(2) by (cases usedL) auto
  obtain l0 s0 where x: "x = (l0, s0)" by (cases x)
  have srt: "sorted_wrt (<) (map fst rest)"
    using assms(1) by (simp add: u)
  have ord: "\<forall>e \<in> {(l0, s0)}. \<forall>e' \<in> set rest. fst e < fst e'"
    using assms(1) by (auto simp: u x)
  have inv: "\<forall>e \<in> {(l0, s0)}. getSamplingVolume scene s0 \<le> getSamplingVolume scene (snd e) \<and>
           (getSamplingVolume scene (snd e) = getSamplingVolume scene s0 \<longrightarrow> l0 \<le> fst e)"
    by simp
  have "(l0, s0) \<in> {(l0, s0)}" by simp
  from min_volume_loop_first_min [OF srt this inv ord]
  obtain e where e: "e \<in> {(l0, s0)} \<union> set rest"
    "min_volume_loop scene rest (s0, getSamplingVolume scene s0) =
             (snd e, getSamplingVolume scene (snd e))"
    "\<forall>e' \<in> {(l0, s0)} \<union> set rest.
              getSamplingVolume scene (snd e) \<le> getSamplingVolume scene (snd e') \<and>
              (getSamplingVolume scene (snd e') = getSamplingVolume scene (snd e) \<longrightarrow>
                 fst e \<le> fst e')"
    by blast
  have set_eq: "set usedL = {(l0, s0)} \<union> set rest" by (simp add: u x)
  have len: "length usedL \<noteq> 1" using assms(2) by simp
  have res: "ik_resolve scene g smp usedL =
             Some (if smp = [] then IKSampler (snd e)
                   else UnionSampler g (smp @ [IKSampler (snd e)]))"
    using assms(2) len e(2) unfolding ik_resolve_def by (simp add: u x)
  show ?thesis
    unfolding set_eq using e(1,3) res by blast
qed

text \<open>
  Claim C3, as amended. When a new IK sampler is built for a link that has a stored
  candidate, the stored candidate stays only when its volume is strictly smaller than the
  new one's; the new candidate replaces it when its volume is smaller or equal, so of two
  candidates of equal volume the one seen last is kept. The candidates of the other links
  stay as they are. A link with no candidate gets the new one.
\<close>

theorem record_candidate_replaces_unless_stored_smaller:
  "map_find link (record_candidate scene link iks usedL) =
     (case map_find link usedL of
        Some stored \<Rightarrow>
          if getSamplingVolume scene stored < getSamplingVolume scene iks then Some stored
          else Some iks
      | None \<Rightarrow> Some iks) \<and>
   (\<forall>l. l \<noteq> link \<longrightarrow> map_find l (record_candidate scene link iks usedL) = map_find l usedL)"
  by (simp add: record_candidate_find record_candidate_other)

theorem record_candidate_replaces_unless_stored_smaller_witness:
  "map_find ''lg''
     (record_candidate robot ''lg''
        (IKConstraintSampler ''left'' (IKSamplingPose (Some (pcm ''lg'' 21)) None))
        [(''lg'', IKConstraintSampler ''left'' (IKSamplingPose (Some (pcm ''lg'' 12)) None)),
         (''lw'', IKConstraintSampler ''left'' (IKSamplingPose (Some (pcm ''lw'' 3)) None))]) =
     Some (IKConstraintSampler ''left'' (IKSamplingPose (Some (pcm ''lg'' 21)) None)) \<and>
   map_find ''lw''
     (record_candidate robot ''lg''
        (IKConstraintSampler ''left'' (IKSamplingPose (Some (pcm ''lg'' 21)) None))
        [(''lg'', IKConstraintSampler ''left'' (IKSamplingPose (Some (pcm ''lg'' 12)) None)),
         (''lw'', IKConstraintSampler ''left'' (IKSamplingPose (Some (pcm ''lw'' 3)) None))]) =
     Some (IKConstraintSampler ''left'' (IKSamplingPose (Some (pcm ''lw'' 3)) None))"
proof -
  let ?new = "IKConstraintSampler ''left'' (IKSamplingPose (Some (pcm ''lg'' 21)) None)"
  let ?old = "IKConstraintSampler ''left'' (IKSamplingPose (Some (pcm ''lg'' 12)) None)"
  let ?other = "IKConstraintSampler ''left'' (IKSamplingPose (Some (pcm ''lw'' 3)) None)"
  have f: "map_find ''lg'' [(''lg'', ?old), (''lw'', ?other)] = Some ?old"
    by (simp add: map_find_def)
  have f': "map_find ''lw'' [(''lg'', ?old), (''lw'', ?other)] = Some ?other"
    by (simp add: map_find_def)
  have v: "\<not> getSamplingVolume robot ?old < getSamplingVolume robot ?new"
    by (simp add: robot_def volume_def pcm_def)
  have d: "''lw'' \<noteq> ''lg''"
    by simp
  show ?thesis
    using record_candidate_replaces_unless_stored_smaller
      [of "''lg''" robot ?new "[(''lg'', ?old), (''lw'', ?other)]"] f f' v d
    by simp
qed

text \<open>
  Claim C3 as first stated fails on two candidates of equal volume for one link: of two
  position constraints on \<open>lg\<close> with regions of the same size, the second is in the table
  after the pass, and it is the one returned.
\<close>

theorem equal_volume_counterexample:
  "getSamplingVolume robot (IKConstraintSampler ''left'' (IKSamplingPose (Some (pcm ''lg'' 12)) None)) =
   getSamplingVolume robot (IKConstraintSampler ''left'' (IKSamplingPose (Some (pcm ''lg'' 22)) None)) \<and>
   ik_candidates robot ''left''
     \<lparr>joint_constraints = [], position_constraints = [pcm ''lg'' 12, pcm ''lg'' 22],
      orientation_constraints = []\<rparr> =
   [(''lg'', IKConstraintSampler ''left'' (IKSamplingPose (Some (pcm ''lg'' 22)) None))] \<and>
   selectDefaultSampler 1 robot ''left''
     \<lparr>joint_constraints = [], position_constraints = [pcm ''lg'' 12, pcm ''lg'' 22],
      orientation_constraints = []\<rparr> =
   Some (Some (IKSampler
     (IKConstraintSampler ''left'' (IKSamplingPose (Some (pcm ''lg'' 22)) None))))"
  by code_simp

section \<open>The choice among the candidates of several links\<close>

text \<open>
  Claim C2, as amended. When the table of the whole-group IK pass has candidates for more
  than one link, the function keeps one of them: its volume is the smallest of the table,
  and among the candidates of that volume it is the one whose link name comes first in
  the order of the table, which is the order of the link names and not the order in which
  the candidates were stored. It is returned alone when there is no joint fallback and
  in a union after the joint fallback otherwise.
\<close>

theorem whole_group_ik_keeps_minimum_volume:
  assumes "getJointModelGroup scene group_name = Some a"
    and "joint_pass scene (group_at scene a) constr = Inr joint_sampler"
    and "fst (getSolverAllocators (group_at scene a)) \<noteq> None"
    and "1 < length (ik_candidates scene (getName (group_at scene a)) constr)"
  shows "\<exists>e \<in> set (ik_candidates scene (getName (group_at scene a)) constr).
           (\<forall>e' \<in> set (ik_candidates scene (getName (group_at scene a)) constr).
              getSamplingVolume scene (snd e) \<le> getSamplingVolume scene (snd e') \<and>
              (getSamplingVolume scene (snd e') = getSamplingVolume scene (snd e) \<longrightarrow>
                 fst e \<le> fst e')) \<and>
           selectDefaultSampler (Suc n) scene group_name constr =
             Some (Some (case joint_sampler of
                           None \<Rightarrow> IKSampler (snd e)
                         | Some js \<Rightarrow>
                             UnionSampler (getName (group_at scene a)) [js, IKSampler (snd e)]))"
proof -
  let ?g = "getName (group_at scene a)"
  let ?smp = "case joint_sampler of Some s \<Rightarrow> [s] | None \<Rightarrow> []"
  from ik_resolve_min [OF ik_candidates_sorted assms(4), where scene = scene and g = ?g and smp = ?smp]
  obtain e where e: "e \<in> set (ik_candidates scene ?g constr)"
    "ik_resolve scene ?g ?smp (ik_candidates scene ?g constr) =
       Some (if ?smp = [] then IKSampler (snd e) else UnionSampler ?g (?smp @ [IKSampler (snd e)]))"
    "\<forall>e' \<in> set (ik_candidates scene ?g constr).
        getSamplingVolume scene (snd e) \<le> getSamplingVolume scene (snd e') \<and>
        (getSamplingVolume scene (snd e') = getSamplingVolume scene (snd e) \<longrightarrow> fst e \<le> fst e')"
    by blast
  have "selectDefaultSampler (Suc n) scene group_name constr =
      Some (Some (case joint_sampler of
                    None \<Rightarrow> IKSampler (snd e)
                  | Some js \<Rightarrow> UnionSampler ?g [js, IKSampler (snd e)]))"
    using assms(1,2,3) e(2) by (simp add: ik_pass_def split: option.splits)
  with e(1,3) show ?thesis by blast
qed

theorem whole_group_ik_keeps_minimum_volume_witness:
  "getJointModelGroup robot ''left'' = Some 1 \<and>
   joint_pass robot (group_at robot 1)
     \<lparr>joint_constraints = [jcm ''ls'' 1],
      position_constraints = [pcm ''lw'' 2, pcm ''lg'' 2, pcm ''lw'' 11],
      orientation_constraints = []\<rparr> =
     Inr (Some (JointSampler ''left'' [JointConstraint (jcm ''ls'' 1) ''ls''])) \<and>
   (\<exists>e \<in> set (ik_candidates robot (getName (group_at robot 1))
        \<lparr>joint_constraints = [jcm ''ls'' 1],
         position_constraints = [pcm ''lw'' 2, pcm ''lg'' 2, pcm ''lw'' 11],
         orientation_constraints = []\<rparr>).
      selectDefaultSampler (Suc 0) robot ''left''
        \<lparr>joint_constraints = [jcm ''ls'' 1],
         position_constraints = [pcm ''lw'' 2, pcm ''lg'' 2, pcm ''lw'' 11],
         orientation_constraints = []\<rparr> =
      Some (Some (UnionSampler (getName (group_at robot 1))
        [JointSampler ''left'' [JointConstraint (jcm ''ls'' 1) ''ls''], IKSampler (snd e)])))"
proof -
  let ?c = "\<lparr>joint_constraints = [jcm ''ls'' 1],
      position_constraints = [pcm ''lw'' 2, pcm ''lg'' 2, pcm ''lw'' 11],
      orientation_constraints = []\<rparr>"
  have g: "getJointModelGroup robot ''left'' = Some 1"
    by code_simp
  have j: "joint_pass robot (group_at robot 1) ?c =
      Inr (Some (JointSampler ''left'' [JointConstraint (jcm ''ls'' 1) ''ls'']))"
    by code_simp
  have k: "fst (getSolverAllocators (group_at robot 1)) \<noteq> None"
    by code_simp
  have l: "1 < length (ik_candidates robot (getName (group_at robot 1)) ?c)"
    by code_simp
  show ?thesis
    using g j whole_group_ik_keeps_minimum_volume [OF g j k l, of 0]
    by auto
qed

text \<open>
  Claim C2 as first stated fails on a tie between two links: the candidate for \<open>lw\<close> is
  stored first and the candidate for \<open>lg\<close> second, with the same volume; the table lists
  \<open>lg\<close> before \<open>lw\<close>, and the candidate for \<open>lg\<close> is returned.
\<close>

theorem first_inserted_minimum_counterexample:
  "ik_candidates robot ''left''
     \<lparr>joint_constraints = [], position_constraints = [pcm ''lw'' 2],
      orientation_constraints = []\<rparr> =
   [(''lw'', IKConstraintSampler ''left'' (IKSamplingPose (Some (pcm ''lw'' 2)) None))] \<and>
   ik_candidates robot ''left''
     \<lparr>joint_constraints = [], position_constraints = [pcm ''lw'' 2, pcm ''lg'' 2],
      orientation_constraints = []\<rparr> =
   [(''lg'', IKConstraintSampler ''left'' (IKSamplingPose (Some (pcm ''lg'' 2)) None)),
    (''lw'', IKConstraintSampler ''left'' (IKSamplingPose (Some (pcm ''lw'' 2)) None))] \<and>
   getSamplingVolume robot (IKConstraintSampler ''left'' (IKSamplingPose (Some (pcm ''lw'' 2)) None)) =
   getSamplingVolume robot (IKConstraintSampler ''left'' (IKSamplingPose (Some (pcm ''lg'' 2)) None)) \<and>
   selectDefaultSampler 1 robot ''left''
     \<lparr>joint_constraints = [], position_constraints = [pcm ''lw'' 2, pcm ''lg'' 2],
      orientation_constraints = []\<rparr> =
   Some (Some (IKSampler
     (IKConstraintSampler ''left'' (IKSamplingPose (Some (pcm ''lg'' 2)) None))))"
  by code_simp

section \<open>The subgroup pass\<close>

lemma claim_loop_eq:
  "distinct ps \<Longrightarrow>
   claim_loop has_link ps (sub, used) =
     (sub @ filter (\<lambda>p. has_link p \<and> p \<notin> used) ps,
      used \<union> set (filter (\<lambda>p. has_link p \<and> p \<notin> used) ps))"
proof (induction ps arbitrary: sub used)
  case Nil
  then show ?case by simp
next
  case (Cons p ps)
  have d: "distinct ps" and p: "p \<notin> set ps" using Cons.prems by auto
  have f: "filter (\<lambda>q. has_link q \<and> q \<noteq> p \<and> q \<notin> used) ps =
           filter (\<lambda>q. has_link q \<and> q \<notin> used) ps"
    using p by (intro filter_cong) auto
  show ?case
    using Cons.IH [OF d] by (simp add: f del: set_filter)
qed

lemma subgroup_step_eq:
  "subgroup_step select scene constr a st =
     (let subP = claimedP scene constr a (usedP st);
          subO = claimedO scene constr a (usedO st);
          st' = st\<lparr>usedP := usedP st \<union> set subP, usedO := usedO st \<union> set subO,
                   sub_constr_log := sub_constr_log st @ [(a, subP, subO)]\<rparr>
      in if subO \<noteq> [] \<or> subP \<noteq> [] then
           (case select (getName (group_at scene a)) (sub_constr_of constr subP subO) of
              None \<Rightarrow> None
            | Some None \<Rightarrow> Some st'
            | Some (Some cs) \<Rightarrow>
                Some (st'\<lparr>some_sampler_valid := True, samplers := samplers st' @ [cs]\<rparr>))
         else Some st')"
  unfolding subgroup_step_def claim_loop_eq [OF distinct_upt] claimedP_def claimedO_def
  by (simp add: Let_def sub_constr_of_def del: set_filter cong: option.case_cong)

lemma subgroup_step_Some:
  assumes "subgroup_step select scene constr a st = Some st1"
  shows "sub_constr_log st1 =
           sub_constr_log st @
             [(a, claimedP scene constr a (usedP st), claimedO scene constr a (usedO st))]"
    and "usedP st1 = usedP st \<union> set (claimedP scene constr a (usedP st))"
    and "usedO st1 = usedO st \<union> set (claimedO scene constr a (usedO st))"
    and "samplers st1 =
           samplers st @
             (case subgroup_result select scene constr
                     (a, claimedP scene constr a (usedP st), claimedO scene constr a (usedO st)) of
                Some cs \<Rightarrow> [cs] | None \<Rightarrow> [])"
    and "some_sampler_valid st1 =
           (some_sampler_valid st \<or>
            subgroup_result select scene constr
              (a, claimedP scene constr a (usedP st), claimedO scene constr a (usedO st)) \<noteq> None)"
  using assms
  by (auto simp: subgroup_step_eq subgroup_result_def Let_def split: if_splits option.splits)

lemma map_filter_Cons:
  "List.map_filter f (x # xs) =
     (case f x of Some y \<Rightarrow> [y] | None \<Rightarrow> []) @ List.map_filter f xs"
  by (simp add: map_filter_simps split: option.splits)

lemma map_filter_empty_iff:
  "List.map_filter f xs = [] \<longleftrightarrow> (\<forall>x \<in> set xs. f x = None)"
  by (induction xs) (auto simp: map_filter_simps split: option.splits)

lemma subgroup_loop_trace:
  assumes "subgroup_loop select scene constr subs st0 = Some st"
  shows "sub_constr_log st =
           sub_constr_log st0 @ subgroup_trace scene constr subs (usedP st0) (usedO st0) \<and>
         usedP st = usedP st0 \<union> set (logP (subgroup_trace scene constr subs (usedP st0) (usedO st0))) \<and>
         usedO st = usedO st0 \<union> set (logO (subgroup_trace scene constr subs (usedP st0) (usedO st0))) \<and>
         samplers st =
           samplers st0 @
             List.map_filter (subgroup_result select scene constr)
               (subgroup_trace scene constr subs (usedP st0) (usedO st0)) \<and>
         some_sampler_valid st =
           (some_sampler_valid st0 \<or>
            List.map_filter (subgroup_result select scene constr)
              (subgroup_trace scene constr subs (usedP st0) (usedO st0)) \<noteq> [])"
  using assms
proof (induction subs arbitrary: st0)
  case Nil
  then show ?case by (simp add: logP_def logO_def map_filter_simps)
next
  case (Cons x subs)
  obtain a f where x: "x = (a, f)" by (cases x)
  from Cons.prems obtain st1 where
    step: "subgroup_step select scene constr a st0 = Some st1" and
    rest: "subgroup_loop select scene constr subs st1 = Some st"
    by (auto simp: x split: option.splits)
  note s = subgroup_step_Some [OF step]
  note IH = Cons.IH [OF rest, unfolded s]
  show ?case
    unfolding x subgroup_trace.simps map_filter_Cons
    using IH by (auto simp: logP_def logO_def split: option.splits)
qed

lemma claimedP_props:
  "distinct (claimedP scene constr a used)"
  "set (claimedP scene constr a used) \<inter> used = {}"
  "\<forall>p \<in> set (claimedP scene constr a used). p < length (position_constraints constr) \<and>
     hasLinkModel (group_at scene a) (p_link_name (position_constraints constr ! p))"
  by (auto simp: claimedP_def)

lemma claimedO_props:
  "distinct (claimedO scene constr a used)"
  "set (claimedO scene constr a used) \<inter> used = {}"
  "\<forall>p \<in> set (claimedO scene constr a used). p < length (orientation_constraints constr) \<and>
     hasLinkModel (group_at scene a) (o_link_name (orientation_constraints constr ! p))"
  by (auto simp: claimedO_def)

lemma subgroup_trace_fst: "map fst (subgroup_trace scene constr subs uP uO) = map fst subs"
  by (induction subs arbitrary: uP uO) auto

lemma subgroup_trace_P:
  "distinct (logP (subgroup_trace scene constr subs uP uO)) \<and>
   set (logP (subgroup_trace scene constr subs uP uO)) \<inter> uP = {}"
proof (induction subs arbitrary: uP uO)
  case Nil
  then show ?case by (simp add: logP_def)
next
  case (Cons x subs)
  obtain a f where x: "x = (a, f)" by (cases x)
  let ?P = "claimedP scene constr a uP"
  let ?O = "claimedO scene constr a uO"
  have l: "logP (subgroup_trace scene constr (x # subs) uP uO) =
      ?P @ logP (subgroup_trace scene constr subs (uP \<union> set ?P) (uO \<union> set ?O))"
    by (simp add: x logP_def)
  show ?case
    unfolding l using Cons.IH [of "uP \<union> set ?P" "uO \<union> set ?O"] claimedP_props(1,2) [of scene constr a uP]
    by auto
qed

lemma subgroup_trace_O:
  "distinct (logO (subgroup_trace scene constr subs uP uO)) \<and>
   set (logO (subgroup_trace scene constr subs uP uO)) \<inter> uO = {}"
proof (induction subs arbitrary: uP uO)
  case Nil
  then show ?case by (simp add: logO_def)
next
  case (Cons x subs)
  obtain a f where x: "x = (a, f)" by (cases x)
  let ?P = "claimedP scene constr a uP"
  let ?O = "claimedO scene constr a uO"
  have l: "logO (subgroup_trace scene constr (x # subs) uP uO) =
      ?O @ logO (subgroup_trace scene constr subs (uP \<union> set ?P) (uO \<union> set ?O))"
    by (simp add: x logO_def)
  show ?case
    unfolding l using Cons.IH [of "uP \<union> set ?P" "uO \<union> set ?O"] claimedO_props(1,2) [of scene constr a uO]
    by auto
qed

lemma subgroup_trace_links:
  "\<forall>e \<in> set (subgroup_trace scene constr subs uP uO).
     (\<forall>p \<in> set (fst (snd e)). p < length (position_constraints constr) \<and>
        hasLinkModel (group_at scene (fst e)) (p_link_name (position_constraints constr ! p))) \<and>
     (\<forall>p \<in> set (snd (snd e)). p < length (orientation_constraints constr) \<and>
        hasLinkModel (group_at scene (fst e)) (o_link_name (orientation_constraints constr ! p)))"
proof (induction subs arbitrary: uP uO)
  case Nil
  then show ?case by simp
next
  case (Cons x subs)
  obtain a f where x: "x = (a, f)" by (cases x)
  show ?case
    unfolding x subgroup_trace.simps
    using Cons.IH claimedP_props(3) [of scene constr a uP] claimedO_props(3) [of scene constr a uO]
    by simp
qed

lemma distinct_concat_nth:
  "distinct (concat xss) \<Longrightarrow> i < j \<Longrightarrow> j < length xss \<Longrightarrow> set (xss ! i) \<inter> set (xss ! j) = {}"
proof (induction xss arbitrary: i j)
  case Nil
  then show ?case by simp
next
  case (Cons xs xss)
  obtain j' where j: "j = Suc j'" using Cons.prems(2) by (cases j) auto
  show ?case
  proof (cases i)
    case 0
    have "xss ! j' \<in> set xss" using Cons.prems(3) j by simp
    then show ?thesis using Cons.prems(1) 0 j by auto
  next
    case (Suc i')
    then show ?thesis using Cons.IH [of i' j'] Cons.prems j by simp
  qed
qed

text \<open>
  Claim C4. In one subgroup pass the log has one entry for every subgroup, in the order of
  the pass; no position index and no orientation index occurs twice in the log, neither
  in one entry nor in two (entries at different places have no index in common); and
  every index of an entry is an index of the input whose constraint is on a link of the
  entry's subgroup.
\<close>

theorem subgroup_constraints_partitioned:
  assumes "subgroup_loop select scene constr subs (subgroup_init s) = Some st"
  shows "map fst (sub_constr_log st) = map fst subs \<and>
         distinct (logP (sub_constr_log st)) \<and> distinct (logO (sub_constr_log st)) \<and>
         (\<forall>i j. i < j \<and> j < length (sub_constr_log st) \<longrightarrow>
            set (fst (snd (sub_constr_log st ! i))) \<inter> set (fst (snd (sub_constr_log st ! j))) = {} \<and>
            set (snd (snd (sub_constr_log st ! i))) \<inter> set (snd (snd (sub_constr_log st ! j))) = {}) \<and>
         (\<forall>e \<in> set (sub_constr_log st).
            (\<forall>p \<in> set (fst (snd e)). p < length (position_constraints constr) \<and>
               hasLinkModel (group_at scene (fst e)) (p_link_name (position_constraints constr ! p))) \<and>
            (\<forall>p \<in> set (snd (snd e)). p < length (orientation_constraints constr) \<and>
               hasLinkModel (group_at scene (fst e))
                 (o_link_name (orientation_constraints constr ! p))))"
proof -
  let ?t = "subgroup_trace scene constr subs {} {}"
  have lg: "sub_constr_log st = ?t"
    using subgroup_loop_trace [OF assms] by (simp add: subgroup_init_def)
  have dP: "distinct (logP ?t)" and dO: "distinct (logO ?t)"
    using subgroup_trace_P [of scene constr subs "{}" "{}"]
      subgroup_trace_O [of scene constr subs "{}" "{}"] by auto
  have pair: "set (fst (snd (?t ! i))) \<inter> set (fst (snd (?t ! j))) = {} \<and>
              set (snd (snd (?t ! i))) \<inter> set (snd (snd (?t ! j))) = {}"
    if "i < j" "j < length ?t" for i j
    using distinct_concat_nth [of "map (\<lambda>e. fst (snd e)) ?t" i j]
      distinct_concat_nth [of "map (\<lambda>e. snd (snd e)) ?t" i j] dP dO that
    by (simp add: logP_def logO_def)
  show ?thesis
    unfolding lg
    using subgroup_trace_fst [of scene constr subs "{}" "{}"] dP dO pair
      subgroup_trace_links [of scene constr subs "{}" "{}"]
    by blast
qed

theorem subgroup_constraints_partitioned_witness:
  "subgroup_loop (selectDefaultSampler 1 robot) robot
     \<lparr>joint_constraints = [],
      position_constraints = [pcm ''rg'' 3, pcm ''lg'' 2, pcm ''lg'' 12],
      orientation_constraints = [ocm ''lg'' 5]\<rparr>
     [(1, 1), (2, 2)] (subgroup_init []) =
   Some \<lparr>usedP = {0, 2, 1}, usedO = {0}, some_sampler_valid = True,
     samplers =
       [IKSampler (IKConstraintSampler ''left''
          (IKSamplingPose (Some (pcm ''lg'' 12)) (Some (ocm ''lg'' 5)))),
        IKSampler (IKConstraintSampler ''right'' (IKSamplingPose (Some (pcm ''rg'' 3)) None))],
     sub_constr_log = [(1, [1, 2], [0]), (2, [0], [])]\<rparr> \<and>
   distinct (logP [(1, [1, 2], [0]), (2, [0 :: nat], [] :: nat list)]) \<and>
   distinct (logO [(1 :: nat, [1, 2 :: nat], [0 :: nat]), (2, [0], [])])"
proof -
  let ?c = "\<lparr>joint_constraints = [],
      position_constraints = [pcm ''rg'' 3, pcm ''lg'' 2, pcm ''lg'' 12],
      orientation_constraints = [ocm ''lg'' 5]\<rparr>"
  let ?st = "\<lparr>usedP = {0, 2, 1}, usedO = {0}, some_sampler_valid = True,
     samplers =
       [IKSampler (IKConstraintSampler ''left''
          (IKSamplingPose (Some (pcm ''lg'' 12)) (Some (ocm ''lg'' 5)))),
        IKSampler (IKConstraintSampler ''right'' (IKSamplingPose (Some (pcm ''rg'' 3)) None))],
     sub_constr_log = [(1, [1, 2], [0]), (2, [0], [])]\<rparr>"
  have l: "subgroup_loop (selectDefaultSampler 1 robot) robot ?c [(1, 1), (2, 2)]
             (subgroup_init []) = Some ?st"
    by code_simp
  show ?thesis
    using l subgroup_constraints_partitioned [OF l] by simp
qed

lemma subgroup_trace_later_P:
  "e \<in> set (subgroup_trace scene constr subs uP uO) \<Longrightarrow> set (fst (snd e)) \<inter> uP = {}"
  using subgroup_trace_P [of scene constr subs uP uO] by (auto simp: logP_def)

lemma subgroup_trace_later_O:
  "e \<in> set (subgroup_trace scene constr subs uP uO) \<Longrightarrow> set (snd (snd e)) \<inter> uO = {}"
  using subgroup_trace_O [of scene constr subs uP uO] by (auto simp: logO_def)

text \<open>
  Claim C8. The indices that a subgroup takes are in the used sets after the body of the
  loop for that subgroup, whatever the recursive call returns: they are given by the used
  sets before the body and do not depend on the call. When the call gives no sampler, the
  list of samplers and the flag stay as they were and the indices stay in the used sets.
  The used sets only grow in the rest of the pass, and no later subgroup of the pass takes
  an index of the used sets.
\<close>

theorem claimed_constraints_stay_claimed:
  assumes "subgroup_step select scene constr a st = Some st1"
    and "subgroup_loop select scene constr rest st1 = Some st2"
  shows "usedP st1 = usedP st \<union> set (claimedP scene constr a (usedP st)) \<and>
         usedO st1 = usedO st \<union> set (claimedO scene constr a (usedO st)) \<and>
         sub_constr_log st1 =
           sub_constr_log st @
             [(a, claimedP scene constr a (usedP st), claimedO scene constr a (usedO st))] \<and>
         (subgroup_result select scene constr
            (a, claimedP scene constr a (usedP st), claimedO scene constr a (usedO st)) = None \<longrightarrow>
          samplers st1 = samplers st \<and> some_sampler_valid st1 = some_sampler_valid st) \<and>
         usedP st1 \<subseteq> usedP st2 \<and> usedO st1 \<subseteq> usedO st2 \<and>
         (\<forall>e \<in> set (drop (length (sub_constr_log st1)) (sub_constr_log st2)).
            set (fst (snd e)) \<inter> usedP st1 = {} \<and> set (snd (snd e)) \<inter> usedO st1 = {})"
proof -
  note s = subgroup_step_Some [OF assms(1)]
  note t = subgroup_loop_trace [OF assms(2)]
  have later: "drop (length (sub_constr_log st1)) (sub_constr_log st2) =
      subgroup_trace scene constr rest (usedP st1) (usedO st1)"
    using t by simp
  have "\<forall>e \<in> set (subgroup_trace scene constr rest (usedP st1) (usedO st1)).
      set (fst (snd e)) \<inter> usedP st1 = {} \<and> set (snd (snd e)) \<inter> usedO st1 = {}"
    using subgroup_trace_later_P subgroup_trace_later_O by blast
  moreover have "usedP st1 \<subseteq> usedP st2" "usedO st1 \<subseteq> usedO st2"
    using t by auto
  moreover have "subgroup_result select scene constr
            (a, claimedP scene constr a (usedP st), claimedO scene constr a (usedO st)) = None \<longrightarrow>
          samplers st1 = samplers st \<and> some_sampler_valid st1 = some_sampler_valid st"
    using s(4,5) by simp
  ultimately show ?thesis
    unfolding later using s(1,2,3) by blast
qed

text \<open>
  In the scene with the hand, the position constraint on \<open>lg\<close> is taken by \<open>left\<close>,
  whose recursive call gives no sampler; \<open>hand\<close>, visited next, has the link and takes
  nothing, and the pass ends with no sampler, though the same constraint gives a sampler
  for \<open>hand\<close>.
\<close>

theorem claimed_constraints_stay_claimed_witness:
  "subgroup_step (selectDefaultSampler 1 robot_with_hand) robot_with_hand
     \<lparr>joint_constraints = [], position_constraints = [pcm ''lg'' 2],
      orientation_constraints = []\<rparr> 1 (subgroup_init []) =
   Some \<lparr>usedP = {0}, usedO = {}, some_sampler_valid = False, samplers = [],
          sub_constr_log = [(1, [0], [])]\<rparr> \<and>
   subgroup_loop (selectDefaultSampler 1 robot_with_hand) robot_with_hand
     \<lparr>joint_constraints = [], position_constraints = [pcm ''lg'' 2],
      orientation_constraints = []\<rparr> [(4, 4)]
     \<lparr>usedP = {0}, usedO = {}, some_sampler_valid = False, samplers = [],
      sub_constr_log = [(1, [0], [])]\<rparr> =
   Some \<lparr>usedP = {0}, usedO = {}, some_sampler_valid = False, samplers = [],
          sub_constr_log = [(1, [0], []), (4, [], [])]\<rparr> \<and>
   usedP \<lparr>usedP = {0}, usedO = {}, some_sampler_valid = False, samplers = [],
          sub_constr_log = [(1, [0 :: nat], [] :: nat list)]\<rparr> =
     usedP (subgroup_init []) \<union>
     set (claimedP robot_with_hand
        \<lparr>joint_constraints = [], position_constraints = [pcm ''lg'' 2],
         orientation_constraints = []\<rparr> 1 (usedP (subgroup_init []))) \<and>
   hasLinkModel (group_at robot_with_hand 4) ''lg'' \<and>
   selectDefaultSampler 1 robot_with_hand ''hand''
     \<lparr>joint_constraints = [], position_constraints = [pcm ''lg'' 2],
      orientation_constraints = []\<rparr> =
   Some (Some (IKSampler (IKConstraintSampler ''hand'' (IKSamplingPose (Some (pcm ''lg'' 2)) None))))"
proof -
  let ?c = "\<lparr>joint_constraints = [], position_constraints = [pcm ''lg'' 2],
      orientation_constraints = []\<rparr>"
  let ?st1 = "\<lparr>usedP = {0}, usedO = {}, some_sampler_valid = False, samplers = [],
          sub_constr_log = [(1, [0], [])]\<rparr>"
  let ?st2 = "\<lparr>usedP = {0}, usedO = {}, some_sampler_valid = False, samplers = [],
          sub_constr_log = [(1, [0], []), (4, [], [])]\<rparr>"
  have a: "subgroup_step (selectDefaultSampler 1 robot_with_hand) robot_with_hand ?c 1
             (subgroup_init []) = Some ?st1"
    by code_simp
  have b: "subgroup_loop (selectDefaultSampler 1 robot_with_hand) robot_with_hand ?c [(4, 4)] ?st1 =
             Some ?st2"
    by code_simp
  have h: "hasLinkModel (group_at robot_with_hand 4) ''lg''"
    by code_simp
  have s: "selectDefaultSampler 1 robot_with_hand ''hand'' ?c =
      Some (Some (IKSampler (IKConstraintSampler ''hand'' (IKSamplingPose (Some (pcm ''lg'' 2)) None))))"
    by code_simp
  show ?thesis
    using a b h s claimed_constraints_stay_claimed [OF a b] by blast
qed

section \<open>The depth of the recursive calls\<close>

text \<open>
  A result that the function has with one bound on the depth of its calls it has with
  every greater bound.
\<close>

lemma subgroup_step_mono:
  assumes "\<And>g c r. sel g c = Some r \<Longrightarrow> sel' g c = Some r"
    and "subgroup_step sel scene constr a st = Some st'"
  shows "subgroup_step sel' scene constr a st = Some st'"
proof -
  let ?P = "claimedP scene constr a (usedP st)"
  let ?O = "claimedO scene constr a (usedO st)"
  show ?thesis
  proof (cases "?O \<noteq> [] \<or> ?P \<noteq> []")
    case False
    then show ?thesis using assms(2) by (simp add: subgroup_step_eq Let_def)
  next
    case True
    then obtain r where r: "sel (getName (group_at scene a)) (sub_constr_of constr ?P ?O) = Some r"
      using assms(2) by (auto simp: subgroup_step_eq Let_def split: option.splits)
    have "sel' (getName (group_at scene a)) (sub_constr_of constr ?P ?O) = Some r"
      using assms(1) r by simp
    then show ?thesis
      using assms(2) r True by (simp add: subgroup_step_eq Let_def)
  qed
qed

lemma subgroup_loop_mono:
  assumes "\<And>g c r. sel g c = Some r \<Longrightarrow> sel' g c = Some r"
    and "subgroup_loop sel scene constr subs st = Some st'"
  shows "subgroup_loop sel' scene constr subs st = Some st'"
  using assms(2)
proof (induction subs arbitrary: st)
  case Nil
  then show ?case by simp
next
  case (Cons x subs)
  obtain a f where x: "x = (a, f)" by (cases x)
  from Cons.prems obtain st1 where
    step: "subgroup_step sel scene constr a st = Some st1" and
    rest: "subgroup_loop sel scene constr subs st1 = Some st'"
    by (auto simp: x split: option.splits)
  show ?case
    using subgroup_step_mono [OF assms(1) step] Cons.IH [OF rest] by (simp add: x)
qed

lemma select_unknown_group:
  "getJointModelGroup scene g = None \<Longrightarrow> selectDefaultSampler (Suc n) scene g c = Some None"
  by simp

lemma select_joint_return:
  "getJointModelGroup scene g = Some a \<Longrightarrow> joint_pass scene (group_at scene a) c = Inl s \<Longrightarrow>
   selectDefaultSampler (Suc n) scene g c = Some (Some s)"
  by (simp add: Let_def)

lemma select_ik_return:
  "getJointModelGroup scene g = Some a \<Longrightarrow> joint_pass scene (group_at scene a) c = Inr js \<Longrightarrow>
   ik_pass scene (group_at scene a) (case js of Some s \<Rightarrow> [s] | None \<Rightarrow> []) c = Some s \<Longrightarrow>
   selectDefaultSampler (Suc n) scene g c = Some (Some s)"
  by (simp add: Let_def)

lemma select_no_subgroups:
  "getJointModelGroup scene g = Some a \<Longrightarrow> joint_pass scene (group_at scene a) c = Inr js \<Longrightarrow>
   ik_pass scene (group_at scene a) (case js of Some s \<Rightarrow> [s] | None \<Rightarrow> []) c = None \<Longrightarrow>
   snd (getSolverAllocators (group_at scene a)) = [] \<Longrightarrow>
   selectDefaultSampler (Suc n) scene g c = Some js"
  by (simp add: Let_def subgroup_init_def)

lemma select_subgroups:
  "getJointModelGroup scene g = Some a \<Longrightarrow> joint_pass scene (group_at scene a) c = Inr js \<Longrightarrow>
   ik_pass scene (group_at scene a) (case js of Some s \<Rightarrow> [s] | None \<Rightarrow> []) c = None \<Longrightarrow>
   snd (getSolverAllocators (group_at scene a)) \<noteq> [] \<Longrightarrow>
   selectDefaultSampler (Suc n) scene g c =
     (case subgroup_loop (selectDefaultSampler n scene) scene c
             (snd (getSolverAllocators (group_at scene a)))
             (subgroup_init (case js of Some s \<Rightarrow> [s] | None \<Rightarrow> [])) of
        None \<Rightarrow> None
      | Some st \<Rightarrow>
          if some_sampler_valid st
          then Some (Some (UnionSampler (getName (group_at scene a)) (samplers st)))
          else Some js)"
  by (simp add: Let_def)

lemma selectDefaultSampler_Suc_mono:
  "selectDefaultSampler n scene g c = Some r \<Longrightarrow> selectDefaultSampler (Suc n) scene g c = Some r"
proof (induction n arbitrary: g c r)
  case 0
  then show ?case by simp
next
  case (Suc k)
  have m: "\<And>g c r. selectDefaultSampler k scene g c = Some r \<Longrightarrow>
                  selectDefaultSampler (Suc k) scene g c = Some r"
    by (rule Suc.IH)
  show ?case
  proof (cases "getJointModelGroup scene g")
    case None
    show ?thesis
      using Suc.prems unfolding select_unknown_group [OF None] .
  next
    case gm: (Some a)
    let ?jmg = "group_at scene a"
    show ?thesis
    proof (cases "joint_pass scene ?jmg c")
      case (Inl s)
      show ?thesis
        using Suc.prems unfolding select_joint_return [OF gm Inl] .
    next
      case (Inr js)
      let ?s0 = "case js of Some s \<Rightarrow> [s] | None \<Rightarrow> []"
      show ?thesis
      proof (cases "ik_pass scene ?jmg ?s0 c")
        case (Some s)
        show ?thesis
          using Suc.prems unfolding select_ik_return [OF gm Inr Some] .
      next
        case None
        show ?thesis
        proof (cases "snd (getSolverAllocators ?jmg) = []")
          case True
          show ?thesis
            using Suc.prems unfolding select_no_subgroups [OF gm Inr None True] .
        next
          case False
          note u = select_subgroups [OF gm Inr None False]
          from Suc.prems obtain st where
            l: "subgroup_loop (selectDefaultSampler k scene) scene c
                  (snd (getSolverAllocators ?jmg)) (subgroup_init ?s0) = Some st"
            unfolding u by (auto split: option.splits)
          have l': "subgroup_loop (selectDefaultSampler (Suc k) scene) scene c
                  (snd (getSolverAllocators ?jmg)) (subgroup_init ?s0) = Some st"
            using subgroup_loop_mono [OF m l] .
          show ?thesis
            using Suc.prems unfolding u l l' .
        qed
      qed
    qed
  qed
qed

lemma selectDefaultSampler_mono:
  "selectDefaultSampler n scene g c = Some r \<Longrightarrow> n \<le> m \<Longrightarrow>
   selectDefaultSampler m scene g c = Some r"
proof (induction m)
  case 0
  then show ?case by simp
next
  case (Suc m)
  show ?case
  proof (cases "n = Suc m")
    case True
    then show ?thesis using Suc.prems(1) by simp
  next
    case False
    then have "n \<le> m" using Suc.prems(2) by simp
    then have "selectDefaultSampler m scene g c = Some r"
      using Suc.IH Suc.prems(1) by simp
    then show ?thesis by (rule selectDefaultSampler_Suc_mono)
  qed
qed

lemma subgroup_step_returns:
  assumes "\<And>c. sel (getName (group_at scene a)) c \<noteq> None"
  shows "subgroup_step sel scene constr a st \<noteq> None"
  using assms [of "sub_constr_of constr (claimedP scene constr a (usedP st))
                     (claimedO scene constr a (usedO st))"]
  by (auto simp: subgroup_step_eq Let_def split: option.splits)

lemma subgroup_loop_returns:
  assumes "\<And>e c. e \<in> set subs \<Longrightarrow> sel (getName (group_at scene (fst e))) c \<noteq> None"
  shows "subgroup_loop sel scene constr subs st \<noteq> None"
  using assms
proof (induction subs arbitrary: st)
  case Nil
  then show ?case by simp
next
  case (Cons x subs)
  obtain a f where x: "x = (a, f)" by (cases x)
  have "subgroup_step sel scene constr a st \<noteq> None"
    using Cons.prems [of x] by (intro subgroup_step_returns) (simp add: x)
  then obtain st1 where s: "subgroup_step sel scene constr a st = Some st1" by auto
  have "subgroup_loop sel scene constr subs st1 \<noteq> None"
    using Cons.prems by (intro Cons.IH) simp
  then show ?case by (simp add: x s)
qed

text \<open>
  When the subgroups of the robot model go down along a rank (the groups that the names of
  the subgroups of a group resolve to have a smaller rank than the group), the function
  returns: a depth beyond the rank of the group is enough.
\<close>

lemma selectDefaultSampler_returns:
  assumes rank: "\<And>a e a'. e \<in> set (snd (getSolverAllocators (group_at scene a))) \<Longrightarrow>
      getJointModelGroup scene (getName (group_at scene (fst e))) = Some a' \<Longrightarrow>
      rank a' < (rank a :: nat)"
  shows "getJointModelGroup scene g = Some a \<Longrightarrow> rank a < n \<Longrightarrow>
         selectDefaultSampler (Suc n) scene g c \<noteq> None"
proof (induction "rank a" arbitrary: a g c n rule: less_induct)
  case less
  let ?jmg = "group_at scene a"
  show ?case
  proof (cases "joint_pass scene ?jmg c")
    case (Inl s)
    show ?thesis unfolding select_joint_return [OF less.prems(1) Inl] by simp
  next
    case (Inr js)
    let ?s0 = "case js of Some s \<Rightarrow> [s] | None \<Rightarrow> []"
    show ?thesis
    proof (cases "ik_pass scene ?jmg ?s0 c")
      case (Some s)
      show ?thesis unfolding select_ik_return [OF less.prems(1) Inr Some] by simp
    next
      case None
      show ?thesis
      proof (cases "snd (getSolverAllocators ?jmg) = []")
        case True
        show ?thesis unfolding select_no_subgroups [OF less.prems(1) Inr None True] by simp
      next
        case False
        obtain k where n: "n = Suc k" using less.prems(2) by (cases n) auto
        have sub: "selectDefaultSampler n scene (getName (group_at scene (fst e))) c' \<noteq> None"
          if "e \<in> set (snd (getSolverAllocators ?jmg))" for e c'
        proof (cases "getJointModelGroup scene (getName (group_at scene (fst e)))")
          case None
          then show ?thesis by (simp add: n)
        next
          case (Some a')
          have r: "rank a' < rank a" using rank [OF that Some] .
          then have "rank a' < k" using less.prems(2) n by simp
          then have "selectDefaultSampler (Suc k) scene (getName (group_at scene (fst e))) c' \<noteq> None"
            by (rule less.hyps [OF r Some])
          then show ?thesis unfolding n .
        qed
        have "subgroup_loop (selectDefaultSampler n scene) scene c
                (snd (getSolverAllocators ?jmg)) (subgroup_init ?s0) \<noteq> None"
          using sub by (intro subgroup_loop_returns) simp
        then show ?thesis
          unfolding select_subgroups [OF less.prems(1) Inr None False]
          by (auto split: option.splits)
      qed
    qed
  qed
qed

section \<open>The union of the subgroup samplers\<close>

text \<open>
  Claim C6, as amended. The subgroups are visited in the order of the entries of the
  allocator map, which is the ascending order of its keys, the addresses of the subgroup
  objects. When the pass is reached and the recursive call of at least one subgroup gives a
  sampler, the function returns a union whose list is the joint fallback, when there is
  one, and then the samplers of the subgroups that gave one, in the order of the pass. If
  the pass ends with the bound \<open>n\<close> on the depth of the recursive calls, this is the
  result for every bound greater than \<open>n\<close>.
\<close>

theorem subgroup_union_in_pass_order:
  assumes "getJointModelGroup scene group_name = Some a"
    and "joint_pass scene (group_at scene a) constr = Inr joint_sampler"
    and "ik_pass scene (group_at scene a) (case joint_sampler of Some s \<Rightarrow> [s] | None \<Rightarrow> [])
           constr = None"
    and "subgroup_loop (selectDefaultSampler n scene) scene constr
           (snd (getSolverAllocators (group_at scene a)))
           (subgroup_init (case joint_sampler of Some s \<Rightarrow> [s] | None \<Rightarrow> [])) = Some st"
    and "\<exists>e \<in> set (sub_constr_log st).
           subgroup_result (selectDefaultSampler n scene) scene constr e \<noteq> None"
  shows "map fst (sub_constr_log st) = map fst (snd (getSolverAllocators (group_at scene a))) \<and>
         (\<forall>m. n < m \<longrightarrow>
            selectDefaultSampler m scene group_name constr =
              Some (Some (UnionSampler (getName (group_at scene a))
                ((case joint_sampler of Some s \<Rightarrow> [s] | None \<Rightarrow> []) @
                 List.map_filter (subgroup_result (selectDefaultSampler n scene) scene constr)
                   (sub_constr_log st)))))"
proof -
  let ?subs = "snd (getSolverAllocators (group_at scene a))"
  let ?s0 = "case joint_sampler of Some s \<Rightarrow> [s] | None \<Rightarrow> []"
  let ?t = "subgroup_trace scene constr ?subs {} {}"
  note t = subgroup_loop_trace [OF assms(4)]
  have lg: "sub_constr_log st = ?t"
    using t by (simp add: subgroup_init_def)
  have order: "map fst (sub_constr_log st) = map fst ?subs"
    unfolding lg by (rule subgroup_trace_fst)
  have ne: "?subs \<noteq> []"
    using assms(5) order by auto
  have smp: "samplers st =
      ?s0 @ List.map_filter (subgroup_result (selectDefaultSampler n scene) scene constr)
              (sub_constr_log st)"
    unfolding lg using t by (simp add: subgroup_init_def)
  have "List.map_filter (subgroup_result (selectDefaultSampler n scene) scene constr)
          (sub_constr_log st) \<noteq> []"
    using assms(5) by (simp add: map_filter_empty_iff)
  then have valid: "some_sampler_valid st"
    unfolding lg using t by (simp add: subgroup_init_def)
  have r: "selectDefaultSampler (Suc n) scene group_name constr =
      Some (Some (UnionSampler (getName (group_at scene a)) (samplers st)))"
    using assms(1,2,3,4) ne valid by (simp add: Let_def)
  have "selectDefaultSampler m scene group_name constr =
      Some (Some (UnionSampler (getName (group_at scene a)) (samplers st)))" if "n < m" for m
  proof -
    from that have "Suc n \<le> m" by simp
    from selectDefaultSampler_mono [OF r this] show ?thesis .
  qed
  then show ?thesis
    unfolding smp using order by blast
qed

theorem subgroup_union_in_pass_order_witness:
  "getJointModelGroup robot ''arms'' = Some 3 \<and>
   joint_pass robot (group_at robot 3)
     \<lparr>joint_constraints = [jcm ''rs'' 1], position_constraints = [pcm ''rg'' 3, pcm ''lg'' 2],
      orientation_constraints = []\<rparr> =
     Inr (Some (JointSampler ''arms'' [JointConstraint (jcm ''rs'' 1) ''rs''])) \<and>
   snd (getSolverAllocators (group_at robot 3)) = [(1, 1), (2, 2)] \<and>
   selectDefaultSampler (Suc 1) robot ''arms''
     \<lparr>joint_constraints = [jcm ''rs'' 1], position_constraints = [pcm ''rg'' 3, pcm ''lg'' 2],
      orientation_constraints = []\<rparr> =
     Some (Some (UnionSampler ''arms''
       [JointSampler ''arms'' [JointConstraint (jcm ''rs'' 1) ''rs''],
        IKSampler (IKConstraintSampler ''left'' (IKSamplingPose (Some (pcm ''lg'' 2)) None)),
        IKSampler (IKConstraintSampler ''right'' (IKSamplingPose (Some (pcm ''rg'' 3)) None))]))"
proof -
  let ?c = "\<lparr>joint_constraints = [jcm ''rs'' 1],
      position_constraints = [pcm ''rg'' 3, pcm ''lg'' 2], orientation_constraints = []\<rparr>"
  let ?j = "JointSampler ''arms'' [JointConstraint (jcm ''rs'' 1) ''rs'']"
  let ?l = "IKSampler (IKConstraintSampler ''left'' (IKSamplingPose (Some (pcm ''lg'' 2)) None))"
  let ?r = "IKSampler (IKConstraintSampler ''right'' (IKSamplingPose (Some (pcm ''rg'' 3)) None))"
  let ?st = "\<lparr>usedP = {0, 1}, usedO = {}, some_sampler_valid = True, samplers = [?j, ?l, ?r],
      sub_constr_log = [(1, [1], []), (2, [0], [])]\<rparr>"
  have g: "getJointModelGroup robot ''arms'' = Some 3"
    by code_simp
  have j: "joint_pass robot (group_at robot 3) ?c = Inr (Some ?j)"
    by code_simp
  have k: "ik_pass robot (group_at robot 3) (case Some ?j of Some s \<Rightarrow> [s] | None \<Rightarrow> []) ?c = None"
    by code_simp
  have subs: "snd (getSolverAllocators (group_at robot 3)) = [(1, 1), (2, 2)]"
    by code_simp
  have l: "subgroup_loop (selectDefaultSampler 1 robot) robot ?c
             (snd (getSolverAllocators (group_at robot 3)))
             (subgroup_init (case Some ?j of Some s \<Rightarrow> [s] | None \<Rightarrow> [])) = Some ?st"
    by code_simp
  have r1: "subgroup_result (selectDefaultSampler 1 robot) robot ?c (1, [1], []) = Some ?l"
    by code_simp
  have r2: "subgroup_result (selectDefaultSampler 1 robot) robot ?c (2, [0], []) = Some ?r"
    by code_simp
  have e: "\<exists>e \<in> set (sub_constr_log ?st).
             subgroup_result (selectDefaultSampler 1 robot) robot ?c e \<noteq> None"
    using r1 by simp
  have n: "getName (group_at robot 3) = ''arms''"
    by code_simp
  have mf: "List.map_filter (subgroup_result (selectDefaultSampler 1 robot) robot ?c)
              (sub_constr_log ?st) = [?l, ?r]"
    using r1 r2 by (simp add: map_filter_simps)
  have u: "(case Some ?j of Some s \<Rightarrow> [s] | None \<Rightarrow> []) @ [?l, ?r] = [?j, ?l, ?r]"
    by simp
  have lt: "(1 :: nat) < Suc 1"
    by simp
  have "selectDefaultSampler (Suc 1) robot ''arms'' ?c = Some (Some (UnionSampler ''arms'' [?j, ?l, ?r]))"
    using subgroup_union_in_pass_order [OF g j k l e, THEN conjunct2, rule_format, OF lt]
    unfolding mf u n .
  then show ?thesis
    using g j subs by blast
qed

text \<open>
  Claim C6 as first stated names the order in which the allocators were registered. A map
  filled with the allocator of \<open>right\<close> (address 2) first and that of \<open>left\<close> (address 1)
  second is the map of the group \<open>arms\<close>, and the pass visits \<open>left\<close> first: its sampler
  stands before the sampler of \<open>right\<close> in the union.
\<close>

theorem registration_order_counterexample:
  "fold (\<lambda>e m. map_assign (fst e) (snd e) m) [(2, 2), (1, 1)] [] =
     snd (getSolverAllocators (group_at robot 3)) \<and>
   getJointModelGroup robot ''arms'' = Some 3 \<and>
   getName (group_at robot 1) = ''left'' \<and> getName (group_at robot 2) = ''right'' \<and>
   selectDefaultSampler 2 robot ''arms''
     \<lparr>joint_constraints = [], position_constraints = [pcm ''rg'' 3, pcm ''lg'' 2],
      orientation_constraints = []\<rparr> =
     Some (Some (UnionSampler ''arms''
       [IKSampler (IKConstraintSampler ''left'' (IKSamplingPose (Some (pcm ''lg'' 2)) None)),
        IKSampler (IKConstraintSampler ''right'' (IKSamplingPose (Some (pcm ''rg'' 3)) None))]))"
  by code_simp

section \<open>The fallback\<close>

text \<open>
  Claim C7. When the block on joint constraints does not return, the whole-group IK pass
  gives nothing, and the group has no subgroup allocators or the subgroup pass ends with no
  sampler, the function returns the value of \<open>joint_sampler\<close>: the joint fallback when
  there is one, and a null pointer otherwise. The result is a value (\<open>Some\<close>), not a
  missing result, for every bound on the depth greater than the bound with which the
  subgroup pass ends.
\<close>

theorem fallback_is_joint_sampler_or_nothing:
  assumes "getJointModelGroup scene group_name = Some a"
    and "joint_pass scene (group_at scene a) constr = Inr joint_sampler"
    and "ik_pass scene (group_at scene a) (case joint_sampler of Some s \<Rightarrow> [s] | None \<Rightarrow> [])
           constr = None"
    and "snd (getSolverAllocators (group_at scene a)) = [] \<or>
         (\<exists>st. subgroup_loop (selectDefaultSampler n scene) scene constr
                  (snd (getSolverAllocators (group_at scene a)))
                  (subgroup_init (case joint_sampler of Some s \<Rightarrow> [s] | None \<Rightarrow> [])) = Some st \<and>
               \<not> some_sampler_valid st)"
  shows "\<forall>m. n < m \<longrightarrow> selectDefaultSampler m scene group_name constr = Some joint_sampler"
proof (intro allI impI)
  fix m assume "n < m"
  then have le: "Suc n \<le> m" by simp
  have r: "selectDefaultSampler (Suc n) scene group_name constr = Some joint_sampler"
    using assms by (auto simp: Let_def subgroup_init_def)
  from selectDefaultSampler_mono [OF r le]
  show "selectDefaultSampler m scene group_name constr = Some joint_sampler" .
qed

theorem fallback_is_joint_sampler_or_nothing_witness:
  "getJointModelGroup robot ''arms'' = Some 3 \<and>
   joint_pass robot (group_at robot 3)
     \<lparr>joint_constraints = [jcm ''rs'' 1], position_constraints = [pcm ''rg'' 10],
      orientation_constraints = []\<rparr> =
     Inr (Some (JointSampler ''arms'' [JointConstraint (jcm ''rs'' 1) ''rs''])) \<and>
   selectDefaultSampler (Suc 1) robot ''arms''
     \<lparr>joint_constraints = [jcm ''rs'' 1], position_constraints = [pcm ''rg'' 10],
      orientation_constraints = []\<rparr> =
     Some (Some (JointSampler ''arms'' [JointConstraint (jcm ''rs'' 1) ''rs'']))"
proof -
  let ?c = "\<lparr>joint_constraints = [jcm ''rs'' 1], position_constraints = [pcm ''rg'' 10],
      orientation_constraints = []\<rparr>"
  let ?js = "Some (JointSampler ''arms'' [JointConstraint (jcm ''rs'' 1) ''rs''])"
  have g: "getJointModelGroup robot ''arms'' = Some 3"
    by code_simp
  have j: "joint_pass robot (group_at robot 3) ?c = Inr ?js"
    by code_simp
  have k: "ik_pass robot (group_at robot 3) (case ?js of Some s \<Rightarrow> [s] | None \<Rightarrow> []) ?c = None"
    by code_simp
  have v: "\<not> some_sampler_valid (the (subgroup_loop (selectDefaultSampler 1 robot) robot ?c
                  (snd (getSolverAllocators (group_at robot 3)))
                  (subgroup_init (case ?js of Some s \<Rightarrow> [s] | None \<Rightarrow> []))))"
    by code_simp
  have d: "subgroup_loop (selectDefaultSampler 1 robot) robot ?c
                  (snd (getSolverAllocators (group_at robot 3)))
                  (subgroup_init (case ?js of Some s \<Rightarrow> [s] | None \<Rightarrow> [])) \<noteq> None"
    by code_simp
  have l: "snd (getSolverAllocators (group_at robot 3)) = [] \<or>
         (\<exists>st. subgroup_loop (selectDefaultSampler 1 robot) robot ?c
                  (snd (getSolverAllocators (group_at robot 3)))
                  (subgroup_init (case ?js of Some s \<Rightarrow> [s] | None \<Rightarrow> [])) = Some st \<and>
               \<not> some_sampler_valid st)"
    using v d by auto
  have lt: "(1 :: nat) < Suc 1"
    by simp
  show ?thesis
    using g j fallback_is_joint_sampler_or_nothing [OF g j k l, rule_format, OF lt] by blast
qed

text \<open>
  Two cases of it: a group with no allocators and an input with no joint constraints, and
  a group name that the robot model does not know. Both return a null pointer.
\<close>

lemma no_capability_returns_no_sampler:
  assumes "getJointModelGroup scene group_name = Some a"
    and "joint_constraints constr = []"
    and "getSolverAllocators (group_at scene a) = (None, [])"
  shows "selectDefaultSampler (Suc n) scene group_name constr = Some None"
  using assms by (simp add: joint_pass_def ik_pass_def Let_def subgroup_init_def)

lemma unknown_group_returns_no_sampler:
  "getJointModelGroup scene group_name = None \<Longrightarrow>
   selectDefaultSampler (Suc n) scene group_name constr = Some None"
  by simp

section \<open>The registered allocators\<close>

lemma selectSampler_first:
  assumes "i < length sampler_alloc"
    and "canService (sampler_alloc ! i) scene group_name constr"
    and "\<forall>j < i. \<not> canService (sampler_alloc ! j) scene group_name constr"
  shows "selectSampler fuel sampler_alloc scene group_name constr =
         Some (alloc (sampler_alloc ! i) scene group_name constr)"
  using assms
proof (induction sampler_alloc arbitrary: i)
  case Nil
  then show ?case by simp
next
  case (Cons x xs)
  show ?case
  proof (cases i)
    case 0
    then show ?thesis using Cons.prems by simp
  next
    case (Suc k)
    have "\<not> canService x scene group_name constr"
      using Cons.prems(3) Suc by auto
    moreover have "\<forall>j < k. \<not> canService (xs ! j) scene group_name constr"
      using Cons.prems(3) Suc by auto
    ultimately show ?thesis
      using Cons.IH [of k] Cons.prems(1,2) Suc by simp
  qed
qed

lemma selectSampler_none:
  "\<forall>x \<in> set sampler_alloc. \<not> canService x scene group_name constr \<Longrightarrow>
   selectSampler fuel sampler_alloc scene group_name constr =
   selectDefaultSampler fuel scene group_name constr"
  by (induction sampler_alloc) auto

text \<open>
  Claim C5. The allocators are tried in the order of the vector. If the allocator at index
  \<open>i\<close> can service the request and none before it can, \<open>selectSampler\<close> returns what
  its \<open>alloc\<close> returns, also when that is a null pointer, and for every bound on the depth
  of \<open>selectDefaultSampler\<close>, also the bound 0 with which \<open>selectDefaultSampler\<close> has no
  result: the default algorithm is not run. If no allocator can service the request, the
  result is that of \<open>selectDefaultSampler\<close>.
\<close>

theorem selectSampler_first_servicing_allocator:
  "(\<forall>i < length sampler_alloc.
      canService (sampler_alloc ! i) scene group_name constr \<and>
      (\<forall>j < i. \<not> canService (sampler_alloc ! j) scene group_name constr) \<longrightarrow>
      (\<forall>fuel. selectSampler fuel sampler_alloc scene group_name constr =
         Some (alloc (sampler_alloc ! i) scene group_name constr))) \<and>
   ((\<forall>x \<in> set sampler_alloc. \<not> canService x scene group_name constr) \<longrightarrow>
      (\<forall>fuel. selectSampler fuel sampler_alloc scene group_name constr =
         selectDefaultSampler fuel scene group_name constr))"
  using selectSampler_first selectSampler_none by blast

theorem selectSampler_first_servicing_allocator_witness:
  "selectSampler 0 [refusing_allocator, failing_allocator, joint_allocator] robot ''left''
     \<lparr>joint_constraints = [jcm ''ls'' 1], position_constraints = [],
      orientation_constraints = []\<rparr> = Some None \<and>
   selectDefaultSampler 0 robot ''left''
     \<lparr>joint_constraints = [jcm ''ls'' 1], position_constraints = [],
      orientation_constraints = []\<rparr> = None \<and>
   selectSampler 1 [refusing_allocator] robot ''left''
     \<lparr>joint_constraints = [jcm ''ls'' 1], position_constraints = [],
      orientation_constraints = []\<rparr> =
   selectDefaultSampler 1 robot ''left''
     \<lparr>joint_constraints = [jcm ''ls'' 1], position_constraints = [],
      orientation_constraints = []\<rparr>"
proof -
  let ?c = "\<lparr>joint_constraints = [jcm ''ls'' 1], position_constraints = [],
      orientation_constraints = []\<rparr>"
  let ?as = "[refusing_allocator, failing_allocator, joint_allocator]"
  have s: "canService (?as ! 1) robot ''left'' ?c"
    by (simp add: failing_allocator_def)
  have n: "\<forall>j < 1. \<not> canService (?as ! j) robot ''left'' ?c"
    by (simp add: refusing_allocator_def)
  have a: "alloc (?as ! 1) robot ''left'' ?c = None"
    by (simp add: failing_allocator_def)
  have r: "\<forall>x \<in> set [refusing_allocator]. \<not> canService x robot ''left'' ?c"
    by (simp add: refusing_allocator_def)
  have l: "1 < length ?as"
    by simp
  have first: "selectSampler 0 ?as robot ''left'' ?c = Some None"
    using selectSampler_first_servicing_allocator [of ?as robot "''left''" ?c] l s n a
    by metis
  have none: "selectSampler 1 [refusing_allocator] robot ''left'' ?c =
      selectDefaultSampler 1 robot ''left'' ?c"
    using selectSampler_first_servicing_allocator [of "[refusing_allocator]" robot "''left''" ?c] r
    by blast
  show ?thesis
    using first none by simp
qed

end
